theory Spec2Isabelle
  imports Complex_Main "HOL-Library.AList" "HOL-Library.Word"
begin

unbundle bit_operations_syntax

section \<open>RekognitionService: the detection cache\<close>

text \<open>
  The service keeps \<open>detectionCache\<close>, a JavaScript \<open>Map\<close> from cache keys to
  \<open>{data, timestamp}\<close> objects. A \<open>Map\<close> iterates in insertion order, \<open>set\<close> on a
  present key replaces the value where it stands and \<open>set\<close> on an absent key appends:
  this is an association list with \<open>AList.update\<close>, \<open>AList.delete\<close> and \<open>map_of\<close>.
  \<open>Date.now()\<close> is an integer number of milliseconds, passed in as \<open>now\<close>.
\<close>

record bounding_box =
  bb_left :: real
  bb_top :: real
  bb_width :: real
  bb_height :: real

record detection =
  name :: string
  confidence :: real
  boundingBox :: "bounding_box option"
  det_timestamp :: int

record cache_entry =
  data :: "detection list"
  timestamp :: int

type_synonym cache_key = string

record rk_stats =
  apiCalls :: nat
  detections :: nat
  errors :: nat
  avgConfidence :: real

record rekognition_service =
  isInitialized :: bool
  confidenceThreshold :: real
  maxRetries :: nat
  rstats :: rk_stats
  detectionCache :: "(cache_key \<times> cache_entry) list"
  cacheTimeout :: int

text \<open>\<open>this.detectionCache.keys().next().value\<close>: the first key in insertion order.\<close>

fun firstKey :: "(cache_key \<times> cache_entry) list \<Rightarrow> cache_key option" where
  "firstKey [] = None"
| "firstKey ((k, e) # m) = Some k"

definition getFromCache ::
  "rekognition_service \<Rightarrow> cache_key \<Rightarrow> int \<Rightarrow> detection list option \<times> rekognition_service" where
  "getFromCache s key now =
     (case map_of (detectionCache s) key of
        None \<Rightarrow> (None, s)
      | Some cached \<Rightarrow>
          if now - timestamp cached < cacheTimeout s then (Some (data cached), s)
          else (None, s\<lparr>detectionCache := AList.delete key (detectionCache s)\<rparr>))"

definition cacheResult ::
  "rekognition_service \<Rightarrow> cache_key \<Rightarrow> detection list \<Rightarrow> int \<Rightarrow> rekognition_service" where
  "cacheResult s key d now =
     (let c = detectionCache s;
          c1 = (if length c > 50
                then (case firstKey c of None \<Rightarrow> c | Some k \<Rightarrow> AList.delete k c)
                else c)
      in s\<lparr>detectionCache := AList.update key \<lparr>data = d, timestamp = now\<rparr> c1\<rparr>)"

text \<open>A run of \<open>cacheResult\<close> calls, each with its key, its detections and its clock reading.\<close>

fun cacheAll ::
  "rekognition_service \<Rightarrow> (cache_key \<times> detection list \<times> int) list \<Rightarrow> rekognition_service" where
  "cacheAll s [] = s"
| "cacheAll s ((k, d, t) # rest) = cacheAll (cacheResult s k d t) rest"

definition clearCache :: "rekognition_service \<Rightarrow> rekognition_service" where
  "clearCache s = s\<lparr>detectionCache := []\<rparr>"


text \<open>The constructor, with the values of \<open>CONFIG.DETECTION\<close>.\<close>

definition RekognitionService :: rekognition_service where
  "RekognitionService =
     \<lparr>isInitialized = False, confidenceThreshold = 0.8, maxRetries = 3,
      rstats = \<lparr>apiCalls = 0, detections = 0, errors = 0, avgConfidence = 0\<rparr>,
      detectionCache = [], cacheTimeout = 5000\<rparr>"

text \<open>The \<open>Map\<close> entry that \<open>cacheResult\<close> stores for a key, detections and clock reading.\<close>

definition entryOf :: "cache_key \<times> detection list \<times> int \<Rightarrow> cache_key \<times> cache_entry" where
  "entryOf p = (fst p, \<lparr>data = fst (snd p), timestamp = snd (snd p)\<rparr>)"

text \<open>Concrete inputs: one detection and 52 distinct keys with their insertion times.\<close>

definition sampleDetection :: detection where
  "sampleDetection =
     \<lparr>name = ''Logo'', confidence = 0.85, boundingBox = None, det_timestamp = 1000\<rparr>"

definition sampleEntries :: "(cache_key \<times> detection list \<times> int) list" where
  "sampleEntries =
    [(''0'', [sampleDetection], 1000),
     (''1'', [sampleDetection], 1001),
     (''2'', [sampleDetection], 1002),
     (''3'', [sampleDetection], 1003),
     (''4'', [sampleDetection], 1004),
     (''5'', [sampleDetection], 1005),
     (''6'', [sampleDetection], 1006),
     (''7'', [sampleDetection], 1007),
     (''8'', [sampleDetection], 1008),
     (''9'', [sampleDetection], 1009),
     (''10'', [sampleDetection], 1010),
     (''11'', [sampleDetection], 1011),
     (''12'', [sampleDetection], 1012),
     (''13'', [sampleDetection], 1013),
     (''14'', [sampleDetection], 1014),
     (''15'', [sampleDetection], 1015),
     (''16'', [sampleDetection], 1016),
     (''17'', [sampleDetection], 1017),
     (''18'', [sampleDetection], 1018),
     (''19'', [sampleDetection], 1019),
     (''20'', [sampleDetection], 1020),
     (''21'', [sampleDetection], 1021),
     (''22'', [sampleDetection], 1022),
     (''23'', [sampleDetection], 1023),
     (''24'', [sampleDetection], 1024),
     (''25'', [sampleDetection], 1025),
     (''26'', [sampleDetection], 1026),
     (''27'', [sampleDetection], 1027),
     (''28'', [sampleDetection], 1028),
     (''29'', [sampleDetection], 1029),
     (''30'', [sampleDetection], 1030),
     (''31'', [sampleDetection], 1031),
     (''32'', [sampleDetection], 1032),
     (''33'', [sampleDetection], 1033),
     (''34'', [sampleDetection], 1034),
     (''35'', [sampleDetection], 1035),
     (''36'', [sampleDetection], 1036),
     (''37'', [sampleDetection], 1037),
     (''38'', [sampleDetection], 1038),
     (''39'', [sampleDetection], 1039),
     (''40'', [sampleDetection], 1040),
     (''41'', [sampleDetection], 1041),
     (''42'', [sampleDetection], 1042),
     (''43'', [sampleDetection], 1043),
     (''44'', [sampleDetection], 1044),
     (''45'', [sampleDetection], 1045),
     (''46'', [sampleDetection], 1046),
     (''47'', [sampleDetection], 1047),
     (''48'', [sampleDetection], 1048),
     (''49'', [sampleDetection], 1049),
     (''50'', [sampleDetection], 1050),
     (''51'', [sampleDetection], 1051)]"

section \<open>RekognitionService: cache keys, error classification and dispatch\<close>

text \<open>
  \<open>generateCacheKey\<close> hashes the first 1000 characters. Every step ends in
  \<open>hash & hash\<close>, the conversion to a signed 32-bit integer, so the running hash is a
  \<open>32 word\<close>; \<open>hash << 5\<close> is \<open>push_bit 5\<close>, and \<open>toString\<close> prints the signed value
  in decimal.
\<close>

definition hashStep :: "32 word \<Rightarrow> char \<Rightarrow> 32 word" where
  "hashStep hash c = (push_bit 5 hash - hash) + of_nat (of_char c)"

fun natToString :: "nat \<Rightarrow> string" where
  "natToString n =
     (if n < 10 then [char_of (48 + n)]
      else natToString (n div 10) @ [char_of (48 + n mod 10)])"

definition toString :: "int \<Rightarrow> string" where
  "toString i = (if i < 0 then CHR ''-'' # natToString (nat (- i)) else natToString (nat i))"

definition generateCacheKey :: "string \<Rightarrow> cache_key" where
  "generateCacheKey imageDataUrl = toString (sint (foldl hashStep 0 (take 1000 imageDataUrl)))"

text \<open>
  An error object as the catch block reads it: \<open>error.code\<close>, \<open>error.statusCode\<close>
  (\<open>None\<close> when the property is absent, so that \<open>statusCode >= 500\<close> is false) and
  \<open>error.message\<close> (empty when absent, which \<open>||\<close> treats as false).
\<close>

record js_error =
  code :: string
  statusCode :: "int option"
  message :: string

definition retryableCodes :: "string list" where
  "retryableCodes =
     [''ThrottlingException'', ''InternalServerError'', ''ServiceUnavailableException'',
      ''RequestTimeout'']"

definition isRetryableError :: "js_error \<Rightarrow> bool" where
  "isRetryableError error =
     (code error \<in> set retryableCodes
      \<or> (case statusCode error of None \<Rightarrow> False | Some n \<Rightarrow> n \<ge> 500)
      \<or> code error = ''NetworkingError'')"

text \<open>\<open>handleRekognitionError\<close> returns a new \<open>Error\<close>; the model keeps its message.\<close>

definition handleRekognitionError :: "js_error \<Rightarrow> string" where
  "handleRekognitionError error =
     (if code error = ''InvalidParameterException'' then ''Invalid image format or parameters''
      else if code error = ''ResourceNotFoundException''
        then ''Custom Labels model not found or not running''
      else if code error = ''AccessDeniedException''
        then ''Access denied. Check AWS credentials and permissions''
      else if code error = ''ThrottlingException''
        then ''Too many requests. Please wait and try again''
      else if code error = ''LimitExceededException'' then ''Service limit exceeded''
      else if code error = ''InternalServerError'' then ''AWS service error. Please try again''
      else ''AWS Error: '' @ (if message error \<noteq> [] then message error else code error))"

text \<open>
  A label of the remote answer. \<open>BoundingBox\<close> is \<open>label.Geometry.BoundingBox\<close>, and
  \<open>None\<close> when \<open>Geometry\<close> or the box is absent.
\<close>

record custom_label =
  Name :: string
  Confidence :: real
  BoundingBox :: "bounding_box option"

text \<open>
  \<open>result.CustomLabels\<close> may be absent (\<open>None\<close>) or empty; both give no detections.
\<close>

definition processDetectionResults :: "custom_label list option \<Rightarrow> int \<Rightarrow> detection list" where
  "processDetectionResults result now =
     (case result of
        None \<Rightarrow> []
      | Some labels \<Rightarrow>
          map (\<lambda>label. \<lparr>name = Name label, confidence = Confidence label / 100,
                         boundingBox = BoundingBox label, det_timestamp = now\<rparr>) labels)"

text \<open>
  What \<open>detectLogo\<close> meets outside the service object. \<open>dataUrlToBytes\<close> is the
  platform's base64 decoding, which throws on a malformed string; \<open>detectCustomLabels\<close>
  is the remote classifier, whose answer to the attempt with a given retry count is either
  an error or the labels; \<open>nowLookup\<close> and \<open>nowResult\<close> are the readings of
  \<open>Date.now()\<close> at the cache lookup and after the answer of that attempt. What the
  function does to the world is a list of events: each remote call and each \<open>delay\<close>.
\<close>

record environment =
  dataUrlToBytes :: "string \<Rightarrow> js_error + 8 word list"
  detectCustomLabels :: "nat \<Rightarrow> 8 word list \<Rightarrow> real \<Rightarrow> js_error + custom_label list option"
  nowLookup :: "nat \<Rightarrow> int"
  nowResult :: "nat \<Rightarrow> int"

datatype event = RemoteCall | Delay int

definition countError :: "rekognition_service \<Rightarrow> rekognition_service" where
  "countError s = s\<lparr>rstats := (rstats s)\<lparr>errors := errors (rstats s) + 1\<rparr>\<rparr>"

definition countApiCall :: "rekognition_service \<Rightarrow> rekognition_service" where
  "countApiCall s = s\<lparr>rstats := (rstats s)\<lparr>apiCalls := apiCalls (rstats s) + 1\<rparr>\<rparr>"

text \<open>
  The body of the \<open>try\<close> block of one attempt: the value returned or the error thrown,
  the service afterwards, and the events.
\<close>

definition attempt ::
  "environment \<Rightarrow> rekognition_service \<Rightarrow> string \<Rightarrow> nat \<Rightarrow>
   (js_error + detection list) \<times> rekognition_service \<times> event list" where
  "attempt env s imageDataUrl retryCount =
     (let cacheKey = generateCacheKey imageDataUrl;
          (cachedResult, s1) = getFromCache s cacheKey (nowLookup env retryCount)
      in case cachedResult of
           Some r \<Rightarrow> (Inr r, s1, [])
         | None \<Rightarrow>
            (case dataUrlToBytes env imageDataUrl of
               Inl error \<Rightarrow> (Inl error, s1, [])
             | Inr imageBytes \<Rightarrow>
                (let s2 = countApiCall s1 in
                 case detectCustomLabels env retryCount imageBytes (confidenceThreshold s2 * 100) of
                   Inl error \<Rightarrow> (Inl error, s2, [RemoteCall])
                 | Inr result \<Rightarrow>
                    (let dets = processDetectionResults result (nowResult env retryCount) in
                     if length dets > 0
                     then (Inr dets,
                           (let s3 = cacheResult s2 cacheKey dets (nowResult env retryCount)
                            in s3\<lparr>rstats := (rstats s3)
                                 \<lparr>detections := detections (rstats s3) + 1,
                                  avgConfidence := sum_list (map confidence dets) / real (length dets)\<rparr>\<rparr>),
                           [RemoteCall])
                     else (Inr dets, s2, [RemoteCall])))))"

text \<open>
  \<open>detectLogo\<close>: the result is \<open>Inl\<close> of the message of the \<open>Error\<close> thrown or \<open>Inr\<close>
  of the detections returned. The recursion is the retry; it ends because \<open>retryCount\<close>
  grows towards \<open>maxRetries\<close>, which no step changes.
\<close>

function detectLogo ::
  "environment \<Rightarrow> rekognition_service \<Rightarrow> string \<Rightarrow> nat \<Rightarrow>
   (string + detection list) \<times> rekognition_service \<times> event list" where
  "detectLogo env s imageDataUrl retryCount =
     (if \<not> isInitialized s then (Inl ''Rekognition service not initialized'', s, [])
      else
        (case attempt env s imageDataUrl retryCount of
           (Inr dets, s1, evs) \<Rightarrow> (Inr dets, s1, evs)
         | (Inl error, s1, evs) \<Rightarrow>
            (let s2 = countError s1 in
             if retryCount < maxRetries s \<and> isRetryableError error
             then (case detectLogo env s2 imageDataUrl (retryCount + 1) of
                     (r, s3, evs') \<Rightarrow>
                       (r, s3, evs @ Delay (1000 * (int retryCount + 1)) # evs'))
             else (Inl (handleRekognitionError error), s2, evs))))"
  by pat_completeness auto
termination
proof (relation "measure (\<lambda>(env, s, u, k). maxRetries s - k)", goal_cases)
  case 1
  show ?case by simp
next
  case (2 env s imageDataUrl retryCount x y a xa ya xb)
  have "maxRetries (fst (snd (attempt env s imageDataUrl retryCount))) = maxRetries s"
    by (auto simp: attempt_def Let_def countApiCall_def cacheResult_def getFromCache_def
        split: option.splits sum.splits prod.splits if_splits)
  moreover have "xa = fst (snd (attempt env s imageDataUrl retryCount))"
    using 2(2,4) by (metis fst_conv snd_conv)
  ultimately have eq: "maxRetries xb = maxRetries s"
    using 2(5) by (simp add: countError_def)
  have "retryCount < maxRetries s" using 2(6) by simp
  then show ?case using eq by simp
qed

section \<open>SmartDetection: pixel measures\<close>

text \<open>
  An \<open>ImageData\<close> object: \<open>width\<close>, \<open>height\<close> and the \<open>Uint8ClampedArray\<close> of RGBA
  bytes (the property \<open>data\<close> of the source, here \<open>pixels\<close>). The platform builds
  it with \<open>length pixels = 4 * width * height\<close> and both dimensions positive; the
  measures below are defined on every record all the same.

  JavaScript numbers are modelled as reals. Reading a typed array at or beyond its length
  gives \<open>undefined\<close>, and arithmetic on it gives \<open>NaN\<close>: a number that may be \<open>NaN\<close> is
  a \<open>real option\<close>, with \<open>None\<close> for \<open>NaN\<close>. Every comparison with \<open>NaN\<close> is false.
\<close>

record image_data =
  width :: nat
  height :: nat
  pixels :: "8 word list"

record frame_data =
  imageData :: image_data
  dataURL :: string

definition byteAt :: "8 word list \<Rightarrow> nat \<Rightarrow> real option" where
  "byteAt d i = (if i < length d then Some (real (unat (d ! i))) else None)"

definition luminance :: "real option \<Rightarrow> real option \<Rightarrow> real option \<Rightarrow> real option" where
  "luminance r g b =
     (case r of None \<Rightarrow> None | Some r' \<Rightarrow>
        (case g of None \<Rightarrow> None | Some g' \<Rightarrow>
           (case b of None \<Rightarrow> None | Some b' \<Rightarrow>
              Some (0.299 * r' + 0.587 * g' + 0.114 * b'))))"

text \<open>\<open>total += x\<close> and \<open>Math.abs(lum1 - lum2)\<close> on numbers that may be \<open>NaN\<close>.\<close>

definition addNum :: "real option \<Rightarrow> real option \<Rightarrow> real option" where
  "addNum a b = (case a of None \<Rightarrow> None | Some x \<Rightarrow> (case b of None \<Rightarrow> None | Some y \<Rightarrow> Some (x + y)))"

definition absDiff :: "real option \<Rightarrow> real option \<Rightarrow> real option" where
  "absDiff a b = (case a of None \<Rightarrow> None | Some x \<Rightarrow> (case b of None \<Rightarrow> None | Some y \<Rightarrow> Some \<bar>x - y\<bar>))"

function frameDifferenceLoop ::
  "8 word list \<Rightarrow> 8 word list \<Rightarrow> nat \<Rightarrow> real option \<Rightarrow> nat \<Rightarrow> real option \<times> nat" where
  "frameDifferenceLoop data1 data2 i totalDiff pixelCount =
     (if i < length data1
      then (let lum1 = luminance (byteAt data1 i) (byteAt data1 (i + 1)) (byteAt data1 (i + 2));
                lum2 = luminance (byteAt data2 i) (byteAt data2 (i + 1)) (byteAt data2 (i + 2))
            in frameDifferenceLoop data1 data2 (i + 16)
                 (addNum totalDiff (absDiff lum1 lum2)) (pixelCount + 1))
      else (totalDiff, pixelCount))"
  by pat_completeness auto
termination
  by (relation "measure (\<lambda>(data1, data2, i, t, c). length data1 - i)") auto

definition calculateFrameDifference :: "image_data \<Rightarrow> image_data \<Rightarrow> real option" where
  "calculateFrameDifference frame1 frame2 =
     (case frameDifferenceLoop (pixels frame1) (pixels frame2) 0 (Some 0) 0 of
        (totalDiff, pixelCount) \<Rightarrow>
          if pixelCount > 0 then map_option (\<lambda>t. (t / real pixelCount) / 255) totalDiff
          else Some 0)"

text \<open>
  \<open>getLuminance\<close> guards its index, which is a signed integer, and so never reads
  outside the array.
\<close>

definition getLuminance :: "8 word list \<Rightarrow> int \<Rightarrow> real" where
  "getLuminance d index =
     (if index < 0 \<or> index \<ge> int (length d) - 2 then 0
      else 0.299 * real (unat (d ! nat index)) + 0.587 * real (unat (d ! nat (index + 1)))
           + 0.114 * real (unat (d ! nat (index + 2))))"

text \<open>The body of the inner loop of \<open>calculateSharpness\<close>: the gradient magnitude at \<open>idx\<close>.\<close>

definition sobelMagnitude :: "8 word list \<Rightarrow> int \<Rightarrow> int \<Rightarrow> real" where
  "sobelMagnitude d w idx =
     (let tl = getLuminance d (idx - w * 4 - 4);
          tm = getLuminance d (idx - w * 4);
          tr = getLuminance d (idx - w * 4 + 4);
          ml = getLuminance d (idx - 4);
          mr = getLuminance d (idx + 4);
          bl = getLuminance d (idx + w * 4 - 4);
          bm = getLuminance d (idx + w * 4);
          br = getLuminance d (idx + w * 4 + 4);
          gx = (-1 * tl) + (1 * tr) + (-2 * ml) + (2 * mr) + (-1 * bl) + (1 * br);
          gy = (-1 * tl) + (-2 * tm) + (-1 * tr) + (1 * bl) + (2 * bm) + (1 * br)
      in sqrt (gx * gx + gy * gy))"

text \<open>
  The two loops of \<open>calculateSharpness\<close>. The bounds \<open>width - 1\<close> and \<open>height - 1\<close> are
  compared with counters that start at 1, so the truncated subtraction of \<open>nat\<close> decides
  as the signed one does.
\<close>

function sharpnessRow :: "image_data \<Rightarrow> nat \<Rightarrow> nat \<Rightarrow> real \<Rightarrow> nat \<Rightarrow> real \<times> nat" where
  "sharpnessRow img y x sharpness count =
     (if x < width img - 1
      then sharpnessRow img y (x + 4)
             (sharpness + sobelMagnitude (pixels img) (int (width img))
                            ((int y * int (width img) + int x) * 4))
             (count + 1)
      else (sharpness, count))"
  by pat_completeness auto
termination
  by (relation "measure (\<lambda>(img, y, x, s, c). width img - x)") auto

function sharpnessRows :: "image_data \<Rightarrow> nat \<Rightarrow> real \<Rightarrow> nat \<Rightarrow> real \<times> nat" where
  "sharpnessRows img y sharpness count =
     (if y < height img - 1
      then (case sharpnessRow img y 1 sharpness count of
              (sharpness', count') \<Rightarrow> sharpnessRows img (y + 1) sharpness' count')
      else (sharpness, count))"
  by pat_completeness auto
termination
  by (relation "measure (\<lambda>(img, y, s, c). height img - y)") auto

definition calculateSharpness :: "image_data \<Rightarrow> real" where
  "calculateSharpness img =
     (case sharpnessRows img 1 0 0 of
        (sharpness, count) \<Rightarrow> if count > 0 then (sharpness / real count) / 255 else 0)"

function brightnessLoop :: "8 word list \<Rightarrow> nat \<Rightarrow> real option \<Rightarrow> nat \<Rightarrow> real option \<times> nat" where
  "brightnessLoop d i totalBrightness count =
     (if i < length d
      then brightnessLoop d (i + 64)
             (addNum totalBrightness (luminance (byteAt d i) (byteAt d (i + 1)) (byteAt d (i + 2))))
             (count + 1)
      else (totalBrightness, count))"
  by pat_completeness auto
termination
  by (relation "measure (\<lambda>(d, i, t, c). length d - i)") auto

text \<open>
  With \<open>avgBrightness\<close> a \<open>NaN\<close>, both comparisons fail and the function returns 1.
\<close>

definition calculateBrightness :: "image_data \<Rightarrow> real" where
  "calculateBrightness img =
     (case brightnessLoop (pixels img) 0 (Some 0) 0 of
        (totalBrightness, count) \<Rightarrow>
          (case (if count > 0 then map_option (\<lambda>t. t / real count) totalBrightness else Some 0) of
             None \<Rightarrow> 1
           | Some avgBrightness \<Rightarrow>
               if avgBrightness < 50 then avgBrightness / 50 * 0.5
               else if avgBrightness > 200 then max 0 (1 - (avgBrightness - 200) / 55)
               else 1))"

definition qualityScore :: "image_data \<Rightarrow> real" where
  "qualityScore img = (calculateSharpness img * 0.7) + (calculateBrightness img * 0.3)"

section \<open>SmartDetection: the admission pipeline\<close>

record sd_stats =
  framesAnalyzed :: nat
  framesSkipped :: nat
  motionDetected :: nat
  qualityPassed :: nat

record smart_detection =
  lastFrame :: "image_data option"
  lastScanTime :: int
  isEnabled :: bool
  motionThreshold :: real
  qualityThreshold :: real
  scanInterval :: int
  stats :: sd_stats

text \<open>The constructor, with the values of \<open>CONFIG.DETECTION\<close>, and \<open>reset\<close>.\<close>

definition SmartDetection :: smart_detection where
  "SmartDetection =
     \<lparr>lastFrame = None, lastScanTime = 0, isEnabled = True, motionThreshold = 0.1,
      qualityThreshold = 0.7, scanInterval = 2000,
      stats = \<lparr>framesAnalyzed = 0, framesSkipped = 0, motionDetected = 0, qualityPassed = 0\<rparr>\<rparr>"

definition reset :: "smart_detection \<Rightarrow> smart_detection" where
  "reset s = s\<lparr>lastFrame := None, lastScanTime := 0,
               stats := \<lparr>framesAnalyzed = 0, framesSkipped = 0, motionDetected = 0,
                         qualityPassed = 0\<rparr>\<rparr>"

definition setEnabled :: "smart_detection \<Rightarrow> bool \<Rightarrow> smart_detection" where
  "setEnabled s enabled = s\<lparr>isEnabled := enabled\<rparr>"

text \<open>
  \<open>copyImageData\<close> allocates a fresh \<open>ImageData\<close> of the same dimensions and copies the
  bytes into it. On an \<open>ImageData\<close> of the platform neither step throws and the copy has
  the content of the source; values have no identity here, so the copy is the value.
\<close>

definition copyImageData :: "image_data \<Rightarrow> image_data" where
  "copyImageData img = \<lparr>width = width img, height = height img, pixels = pixels img\<rparr>"

definition assessImageQuality :: "smart_detection \<Rightarrow> image_data \<Rightarrow> bool" where
  "assessImageQuality s img = (qualityScore img > qualityThreshold s)"

definition countMotion :: "smart_detection \<Rightarrow> smart_detection" where
  "countMotion s = s\<lparr>stats := (stats s)\<lparr>motionDetected := motionDetected (stats s) + 1\<rparr>\<rparr>"

definition countSkipped :: "smart_detection \<Rightarrow> smart_detection" where
  "countSkipped s = s\<lparr>stats := (stats s)\<lparr>framesSkipped := framesSkipped (stats s) + 1\<rparr>\<rparr>"

definition countAnalyzed :: "smart_detection \<Rightarrow> smart_detection" where
  "countAnalyzed s = s\<lparr>stats := (stats s)\<lparr>framesAnalyzed := framesAnalyzed (stats s) + 1\<rparr>\<rparr>"

definition countQualityPassed :: "smart_detection \<Rightarrow> smart_detection" where
  "countQualityPassed s = s\<lparr>stats := (stats s)\<lparr>qualityPassed := qualityPassed (stats s) + 1\<rparr>\<rparr>"

definition detectMotion :: "smart_detection \<Rightarrow> image_data \<Rightarrow> bool \<times> smart_detection" where
  "detectMotion s currentImageData =
     (case lastFrame s of
        None \<Rightarrow> (True, countMotion (s\<lparr>lastFrame := Some (copyImageData currentImageData)\<rparr>))
      | Some lf \<Rightarrow>
          (let diff = calculateFrameDifference currentImageData lf;
               s1 = s\<lparr>lastFrame := Some (copyImageData currentImageData)\<rparr>
           in if (case diff of None \<Rightarrow> False | Some x \<Rightarrow> x > motionThreshold s1)
              then (True, countMotion s1)
              else (False, s1)))"

text \<open>
  \<open>shouldProcessFrame\<close> has five return statements. \<open>processFrame\<close> is its body with
  each of them labelled: the bypass of a disabled instance, the rejections by the time
  throttle, by the motion check and by the quality check, and the admission.
  \<open>now\<close> is the reading of \<open>Date.now()\<close>.
\<close>

datatype verdict = Bypass | Throttled | NoMotion | LowQuality | Admitted

definition processFrame ::
  "smart_detection \<Rightarrow> frame_data \<Rightarrow> int \<Rightarrow> verdict \<times> smart_detection" where
  "processFrame s frameData now =
     (if \<not> isEnabled s then (Bypass, s)
      else
        (let s1 = countAnalyzed s in
         if now - lastScanTime s1 < scanInterval s1 then (Throttled, countSkipped s1)
         else
           (case detectMotion s1 (imageData frameData) of
              (motion, s2) \<Rightarrow>
                if \<not> motion then (NoMotion, countSkipped s2)
                else if \<not> assessImageQuality s2 (imageData frameData)
                  then (LowQuality, countSkipped s2)
                else (Admitted, countQualityPassed (s2\<lparr>lastScanTime := now\<rparr>)))))"

definition returnValue :: "verdict \<Rightarrow> bool" where
  "returnValue v = (v = Bypass \<or> v = Admitted)"

definition shouldProcessFrame ::
  "smart_detection \<Rightarrow> frame_data \<Rightarrow> int \<Rightarrow> bool \<times> smart_detection" where
  "shouldProcessFrame s frameData now =
     (case processFrame s frameData now of (v, s') \<Rightarrow> (returnValue v, s'))"

text \<open>
  A run of \<open>shouldProcessFrame\<close> calls, each with its frame and its clock reading: the
  instance afterwards, and the clock reading and verdict of every call.
\<close>

fun processAll :: "smart_detection \<Rightarrow> (frame_data \<times> int) list \<Rightarrow> smart_detection" where
  "processAll s [] = s"
| "processAll s ((frameData, now) # rest) =
     processAll (snd (shouldProcessFrame s frameData now)) rest"

fun verdicts :: "smart_detection \<Rightarrow> (frame_data \<times> int) list \<Rightarrow> (int \<times> verdict) list" where
  "verdicts s [] = []"
| "verdicts s ((frameData, now) # rest) =
     (now, fst (processFrame s frameData now))
       # verdicts (snd (processFrame s frameData now)) rest"

text \<open>A frame has passed the throttle gate when the call went on to the motion check.\<close>

definition passedThrottle :: "verdict \<Rightarrow> bool" where
  "passedThrottle v = (v = NoMotion \<or> v = LowQuality \<or> v = Admitted)"

definition throttlePassedTimes :: "smart_detection \<Rightarrow> (frame_data \<times> int) list \<Rightarrow> int list" where
  "throttlePassedTimes s calls = map fst (filter (\<lambda>p. passedThrottle (snd p)) (verdicts s calls))"

definition admittedTimes :: "smart_detection \<Rightarrow> (frame_data \<times> int) list \<Rightarrow> int list" where
  "admittedTimes s calls = map fst (filter (\<lambda>p. snd p = Admitted) (verdicts s calls))"

definition statsConsistent :: "smart_detection \<Rightarrow> bool" where
  "statsConsistent s =
     (framesAnalyzed (stats s) = framesSkipped (stats s) + qualityPassed (stats s))"

text \<open>Concrete frames: one black pixel, and a 3 by 3 frame with a black left column and
  white middle and right columns.\<close>

definition blackPixel :: image_data where
  "blackPixel = \<lparr>width = 1, height = 1, pixels = [0, 0, 0, 255]\<rparr>"

definition edgeImage :: image_data where
  "edgeImage =
     \<lparr>width = 3, height = 3,
      pixels = [0, 0, 0, 255,  255, 255, 255, 255,  255, 255, 255, 255,
                0, 0, 0, 255,  255, 255, 255, 255,  255, 255, 255, 255,
                0, 0, 0, 255,  255, 255, 255, 255,  255, 255, 255, 255]\<rparr>"

definition blackFrame :: frame_data where
  "blackFrame = \<lparr>imageData = blackPixel, dataURL = ''data:image/jpeg;base64,AAAA''\<rparr>"

definition edgeImage2 :: image_data where
  "edgeImage2 =
     \<lparr>width = 3, height = 3,
      pixels = [255, 255, 255, 255,  0, 0, 0, 255,  0, 0, 0, 255,
                255, 255, 255, 255,  0, 0, 0, 255,  0, 0, 0, 255,
                255, 255, 255, 255,  0, 0, 0, 255,  0, 0, 0, 255]\<rparr>"

definition edgeFrame :: frame_data where
  "edgeFrame = \<lparr>imageData = edgeImage, dataURL = ''data:image/jpeg;base64,AAAB''\<rparr>"

definition edgeFrame2 :: frame_data where
  "edgeFrame2 = \<lparr>imageData = edgeImage2, dataURL = ''data:image/jpeg;base64,AAAC''\<rparr>"

text \<open>
  Concrete inputs for the dispatcher: an initialised service, two errors of the remote
  service, and an environment in which the image decodes and every remote call fails with
  the given error.
\<close>

definition readyService :: rekognition_service where
  "readyService = RekognitionService\<lparr>isInitialized := True\<rparr>"

definition throttlingError :: js_error where
  "throttlingError =
     \<lparr>code = ''ThrottlingException'', statusCode = Some 400, message = ''Rate exceeded''\<rparr>"

definition accessDeniedError :: js_error where
  "accessDeniedError =
     \<lparr>code = ''AccessDeniedException'', statusCode = Some 400, message = ''Not authorized''\<rparr>"

definition failingEnv :: "js_error \<Rightarrow> environment" where
  "failingEnv e =
     \<lparr>dataUrlToBytes = (\<lambda>u. Inr [255, 216, 255]),
      detectCustomLabels = (\<lambda>k bytes minConfidence. Inl e),
      nowLookup = (\<lambda>k. 5000 + 3000 * int k),
      nowResult = (\<lambda>k. 5200 + 3000 * int k)\<rparr>"

definition sampleUrl :: string where
  "sampleUrl = ''data:image/jpeg;base64,/9j/''"

declare detectLogo.simps [simp del]
declare frameDifferenceLoop.simps [simp del]
declare sharpnessRow.simps [simp del]
declare sharpnessRows.simps [simp del]
declare brightnessLoop.simps [simp del]
declare natToString.simps [simp del]

section \<open>Cache: insertion order and eviction\<close>

lemma update_fresh: "k \<notin> fst ` set c \<Longrightarrow> AList.update k v c = c @ [(k, v)]"
  by (induction c) auto

lemma delete_head: "distinct (map fst ((k, e) # c)) \<Longrightarrow> AList.delete k ((k, e) # c) = c"
  by (auto simp: AList.delete_eq filter_id_conv rev_image_eqI)

lemma cacheResult_no_evict:
  "length (detectionCache s) \<le> 50 \<Longrightarrow> k \<notin> fst ` set (detectionCache s) \<Longrightarrow>
   detectionCache (cacheResult s k d t) = detectionCache s @ [entryOf (k, d, t)]"
  by (simp add: cacheResult_def entryOf_def update_fresh)

lemma cacheAll_no_evict:
  "distinct (map fst kds) \<Longrightarrow> fst ` set kds \<inter> fst ` set (detectionCache s) = {} \<Longrightarrow>
   length (detectionCache s) + length kds \<le> 51 \<Longrightarrow>
   detectionCache (cacheAll s kds) = detectionCache s @ map entryOf kds"
proof (induction kds arbitrary: s)
  case Nil
  then show ?case by simp
next
  case (Cons p kds)
  obtain k d t where p: "p = (k, d, t)" by (cases p) auto
  have fresh: "k \<notin> fst ` set (detectionCache s)" using Cons.prems(2) p by auto
  have len: "length (detectionCache s) \<le> 50" using Cons.prems(3) by simp
  have step: "detectionCache (cacheResult s k d t) = detectionCache s @ [entryOf (k, d, t)]"
    using cacheResult_no_evict [OF len fresh] .
  have "detectionCache (cacheAll (cacheResult s k d t) kds)
          = detectionCache (cacheResult s k d t) @ map entryOf kds"
  proof (rule Cons.IH)
    show "distinct (map fst kds)" using Cons.prems(1) by simp
    show "fst ` set kds \<inter> fst ` set (detectionCache (cacheResult s k d t)) = {}"
      using Cons.prems(1,2) p by (auto simp: step entryOf_def)
    show "length (detectionCache (cacheResult s k d t)) + length kds \<le> 51"
      using Cons.prems(3) by (simp add: step)
  qed
  then show ?case by (simp add: p step)
qed

lemma cacheAll_append: "cacheAll s (xs @ ys) = cacheAll (cacheAll s xs) ys"
  by (induction xs arbitrary: s) auto

lemma cacheResult_evict:
  assumes "length (detectionCache s) > 50" "distinct (map fst (detectionCache s))"
  shows "detectionCache (cacheResult s k d t)
           = AList.update k \<lparr>data = d, timestamp = t\<rparr> (tl (detectionCache s))"
proof (cases "detectionCache s")
  case Nil
  then show ?thesis using assms(1) by simp
next
  case (Cons p c)
  obtain k0 e0 where p: "p = (k0, e0)" by (cases p) auto
  have "AList.delete k0 ((k0, e0) # c) = c"
    using assms(2) Cons p delete_head by metis
  then show ?thesis using assms(1) Cons p
    by (simp add: cacheResult_def)
qed

lemma map_fst_entryOf: "map fst (map entryOf kds) = map fst kds"
  by (induction kds) (auto simp: entryOf_def)

lemma fst_entryOf [simp]: "fst (entryOf p) = fst p"
  by (simp add: entryOf_def)

lemma snd_entryOf: "snd (entryOf p) = \<lparr>data = fst (snd p), timestamp = snd (snd p)\<rparr>"
  by (simp add: entryOf_def)

lemma cacheAll_52:
  assumes "detectionCache s = []" "distinct (map fst kds)" "length kds = 52"
  shows "detectionCache (cacheAll s kds) = map entryOf (tl kds)"
proof -
  have ne: "kds \<noteq> []" using assms(3) by auto
  define xs where "xs = butlast kds"
  obtain k d t where p: "last kds = (k, d, t)" by (cases "last kds") auto
  have kds: "kds = xs @ [(k, d, t)]"
    using ne p xs_def append_butlast_last_id [of kds] by simp
  have lenxs: "length xs = 51" using assms(3) xs_def by simp
  have dxs: "distinct (map fst xs)" using assms(2) kds by simp
  have kfresh: "k \<notin> fst ` set xs" using assms(2) kds by auto
  have c51: "detectionCache (cacheAll s xs) = map entryOf xs"
    using cacheAll_no_evict [of xs s] dxs lenxs assms(1) by simp
  have d51: "distinct (map fst (detectionCache (cacheAll s xs)))"
    using dxs map_fst_entryOf [of xs] by (simp add: c51 del: map_map)
  obtain x xs' where xs: "xs = x # xs'" using lenxs by (cases xs) auto
  have fresh': "k \<notin> fst ` set (map entryOf xs')"
    using kfresh xs by (auto simp: image_iff)
  have "detectionCache (cacheResult (cacheAll s xs) k d t)
          = AList.update k \<lparr>data = d, timestamp = t\<rparr> (tl (map entryOf xs))"
    using cacheResult_evict [of "cacheAll s xs" k d t] d51 lenxs by (simp add: c51)
  also have "\<dots> = map entryOf xs' @ [entryOf (k, d, t)]"
    using update_fresh [OF fresh'] by (simp add: xs entryOf_def)
  also have "\<dots> = map entryOf (tl kds)"
    by (simp add: kds xs)
  finally show ?thesis by (simp add: kds cacheAll_append)
qed


lemma map_of_entries:
  "distinct (map fst kds) \<Longrightarrow> p \<in> set kds \<Longrightarrow> map_of (map entryOf kds) (fst p) = Some (snd (entryOf p))"
  by (induction kds) (auto simp: entryOf_def rev_image_eqI)

lemma map_of_entries_none:
  "k \<notin> fst ` set kds \<Longrightarrow> map_of (map entryOf kds) k = None"
  by (induction kds) (auto simp: entryOf_def)

lemma distinct_update_keys:
  "distinct (map fst c) \<Longrightarrow> distinct (map fst (AList.update k v c))"
  by (simp add: distinct_update)

text \<open>
  C1 (amended). \<open>cacheResult\<close> evicts only when the map already holds more than 50
  entries, so the cache grows to 51 entries. Starting from an empty cache, putting 52
  distinct keys evicts exactly the first-inserted key and leaves the other 51 retrievable
  with their entries, in insertion order; putting up to 51 distinct keys evicts nothing.
  In general, a put that finds more than 50 entries removes the earliest-inserted entry
  before it sets the new one, and a put that finds at most 50 entries removes nothing.
\<close>

theorem cacheResult_fifo_eviction:
  "(detectionCache s = [] \<and> distinct (map fst kds) \<and> length kds = 52 \<longrightarrow>
      detectionCache (cacheAll s kds) = map entryOf (tl kds)
      \<and> map_of (detectionCache (cacheAll s kds)) (fst (hd kds)) = None
      \<and> (\<forall>p \<in> set (tl kds).
            map_of (detectionCache (cacheAll s kds)) (fst p) = Some (snd (entryOf p))))
   \<and> (detectionCache s = [] \<and> distinct (map fst kds) \<and> length kds \<le> 51 \<longrightarrow>
      detectionCache (cacheAll s kds) = map entryOf kds)
   \<and> (50 < length (detectionCache s) \<and> distinct (map fst (detectionCache s)) \<longrightarrow>
      detectionCache (cacheResult s k d t)
        = AList.update k \<lparr>data = d, timestamp = t\<rparr> (tl (detectionCache s)))
   \<and> (length (detectionCache s) \<le> 50 \<longrightarrow>
      detectionCache (cacheResult s k d t)
        = AList.update k \<lparr>data = d, timestamp = t\<rparr> (detectionCache s))"
proof (intro conjI impI)
  assume a: "detectionCache s = [] \<and> distinct (map fst kds) \<and> length kds = 52"
  then obtain p ps where kds: "kds = p # ps" by (cases kds) auto
  have dps: "distinct (map fst ps)" and pfresh: "fst p \<notin> fst ` set ps"
    using a kds by auto
  show c: "detectionCache (cacheAll s kds) = map entryOf (tl kds)"
    using a cacheAll_52 by blast
  show "map_of (detectionCache (cacheAll s kds)) (fst (hd kds)) = None"
    unfolding c using map_of_entries_none [OF pfresh] by (simp add: kds)
  show "\<forall>p \<in> set (tl kds).
          map_of (detectionCache (cacheAll s kds)) (fst p) = Some (snd (entryOf p))"
    unfolding c using map_of_entries [OF dps] by (simp add: kds)
next
  assume "detectionCache s = [] \<and> distinct (map fst kds) \<and> length kds \<le> 51"
  then show "detectionCache (cacheAll s kds) = map entryOf kds"
    using cacheAll_no_evict [of kds s] by simp
next
  assume "50 < length (detectionCache s) \<and> distinct (map fst (detectionCache s))"
  then show "detectionCache (cacheResult s k d t)
        = AList.update k \<lparr>data = d, timestamp = t\<rparr> (tl (detectionCache s))"
    using cacheResult_evict by blast
next
  assume "length (detectionCache s) \<le> 50"
  then show "detectionCache (cacheResult s k d t)
        = AList.update k \<lparr>data = d, timestamp = t\<rparr> (detectionCache s)"
    by (simp add: cacheResult_def)
qed

lemma sample_distinct: "distinct (map fst sampleEntries)"
  by (simp add: sampleEntries_def)

lemma sample_length: "length sampleEntries = 52"
  by (simp add: sampleEntries_def)

lemma sample_hd: "fst (hd sampleEntries) = ''0''"
  by (simp add: sampleEntries_def)

theorem cacheResult_fifo_eviction_witness:
  "detectionCache RekognitionService = [] \<and> distinct (map fst sampleEntries)
   \<and> length sampleEntries = 52 \<and> length (take 51 sampleEntries) \<le> 51
   \<and> distinct (map fst (take 51 sampleEntries))
   \<and> detectionCache (cacheAll RekognitionService sampleEntries) = map entryOf (tl sampleEntries)
   \<and> map_of (detectionCache (cacheAll RekognitionService sampleEntries)) ''0'' = None
   \<and> detectionCache (cacheAll RekognitionService (take 51 sampleEntries))
        = map entryOf (take 51 sampleEntries)
   \<and> 50 < length (detectionCache (cacheAll RekognitionService (take 51 sampleEntries)))
   \<and> distinct (map fst (detectionCache (cacheAll RekognitionService (take 51 sampleEntries))))
   \<and> detectionCache (cacheResult (cacheAll RekognitionService (take 51 sampleEntries)) ''51'' [sampleDetection] 1051)
        = AList.update ''51'' \<lparr>data = [sampleDetection], timestamp = 1051\<rparr>
            (tl (detectionCache (cacheAll RekognitionService (take 51 sampleEntries))))
   \<and> length (detectionCache RekognitionService) \<le> 50
   \<and> detectionCache (cacheResult RekognitionService ''0'' [sampleDetection] 1000)
        = AList.update ''0'' \<lparr>data = [sampleDetection], timestamp = 1000\<rparr> (detectionCache RekognitionService)"
proof -
  have e: "detectionCache RekognitionService = []" by (simp add: RekognitionService_def)
  have d51: "distinct (map fst (take 51 sampleEntries))"
    using sample_distinct by (simp flip: take_map)
  have l51: "length (take 51 sampleEntries) = 51" using sample_length by simp
  have c51: "detectionCache (cacheAll RekognitionService (take 51 sampleEntries))
        = map entryOf (take 51 sampleEntries)"
    using cacheResult_fifo_eviction [of RekognitionService "take 51 sampleEntries"] e d51 l51
    by simp
  have dc: "distinct (map fst (detectionCache (cacheAll RekognitionService (take 51 sampleEntries))))"
    using d51 map_fst_entryOf [of "take 51 sampleEntries"] by (simp add: c51 del: map_map)
  have lc: "50 < length (detectionCache (cacheAll RekognitionService (take 51 sampleEntries)))"
    using l51 by (simp add: c51)
  have l51': "length (take 51 sampleEntries) \<le> 51" using l51 by simp
  have A: "detectionCache (cacheAll RekognitionService sampleEntries) = map entryOf (tl sampleEntries)"
    and B: "map_of (detectionCache (cacheAll RekognitionService sampleEntries)) (fst (hd sampleEntries)) = None"
    using cacheResult_fifo_eviction [of RekognitionService sampleEntries] e sample_distinct
      sample_length by blast+
  have C: "detectionCache (cacheResult (cacheAll RekognitionService (take 51 sampleEntries)) ''51'' [sampleDetection] 1051)
        = AList.update ''51'' \<lparr>data = [sampleDetection], timestamp = 1051\<rparr>
            (tl (detectionCache (cacheAll RekognitionService (take 51 sampleEntries))))"
    using cacheResult_fifo_eviction [of "cacheAll RekognitionService (take 51 sampleEntries)" "[]"
         "''51''" "[sampleDetection]" 1051] dc lc by blast
  have le: "length (detectionCache RekognitionService) \<le> 50" by (simp add: e)
  have D: "detectionCache (cacheResult RekognitionService ''0'' [sampleDetection] 1000)
        = AList.update ''0'' \<lparr>data = [sampleDetection], timestamp = 1000\<rparr> (detectionCache RekognitionService)"
    using cacheResult_fifo_eviction [of RekognitionService "[]" "''0''" "[sampleDetection]" 1000] le
    by blast
  show ?thesis
    using e sample_distinct sample_length l51' d51 A B [unfolded sample_hd] c51 lc dc C le D
    by blast
qed

text \<open>
  C1 as stated, with the bound 50 of the source: after 50 + 1 distinct keys are put into an
  empty cache, the first-inserted key is still there and the cache holds 51 entries.
\<close>

theorem cache_51_keys_no_eviction:
  "length (take 51 sampleEntries) = 50 + 1
   \<and> distinct (map fst (take 51 sampleEntries))
   \<and> fst (hd (take 51 sampleEntries)) = ''0''
   \<and> map_of (detectionCache (cacheAll RekognitionService (take 51 sampleEntries))) ''0''
       = Some \<lparr>data = [sampleDetection], timestamp = 1000\<rparr>
   \<and> length (detectionCache (cacheAll RekognitionService (take 51 sampleEntries))) = 51"
  by (simp add: sampleEntries_def RekognitionService_def cacheResult_def)

section \<open>Cache: time to live\<close>

lemma cacheResult_stores:
  "map_of (detectionCache (cacheResult s key d t0)) key = Some \<lparr>data = d, timestamp = t0\<rparr>"
  by (simp add: cacheResult_def Let_def update_conv')

text \<open>
  C7. A \<open>getFromCache\<close> on a key whose entry carries the insertion time \<open>t0\<close> returns
  the cached detections and leaves the service unchanged when read at any time strictly
  before \<open>t0 + cacheTimeout\<close>; at any time from \<open>t0 + cacheTimeout\<close> on it is a miss,
  and the read itself deletes the expired entry from the cache.
\<close>

theorem getFromCache_ttl:
  assumes "map_of (detectionCache s) key = Some \<lparr>data = d, timestamp = t0\<rparr>"
  shows "(now < t0 + cacheTimeout s \<longrightarrow> getFromCache s key now = (Some d, s))
       \<and> (t0 + cacheTimeout s \<le> now \<longrightarrow>
            fst (getFromCache s key now) = None
          \<and> snd (getFromCache s key now)
               = s\<lparr>detectionCache := AList.delete key (detectionCache s)\<rparr>
          \<and> map_of (detectionCache (snd (getFromCache s key now))) key = None)"
  using assms by (auto simp: getFromCache_def delete_conv')

theorem getFromCache_ttl_witness:
  "map_of (detectionCache (cacheResult RekognitionService ''7'' [sampleDetection] 1000)) ''7''
     = Some \<lparr>data = [sampleDetection], timestamp = 1000\<rparr>
   \<and> (5999::int) < 1000 + cacheTimeout (cacheResult RekognitionService ''7'' [sampleDetection] 1000)
   \<and> getFromCache (cacheResult RekognitionService ''7'' [sampleDetection] 1000) ''7'' 5999
     = (Some [sampleDetection], cacheResult RekognitionService ''7'' [sampleDetection] 1000)
   \<and> 1000 + cacheTimeout (cacheResult RekognitionService ''7'' [sampleDetection] 1000) \<le> (6000::int)
   \<and> fst (getFromCache (cacheResult RekognitionService ''7'' [sampleDetection] 1000) ''7'' 6000)
     = None
   \<and> detectionCache
        (snd (getFromCache (cacheResult RekognitionService ''7'' [sampleDetection] 1000) ''7'' 6000))
     = []"
proof -
  let ?s = "cacheResult RekognitionService ''7'' [sampleDetection] 1000"
  have h: "map_of (detectionCache ?s) ''7'' = Some \<lparr>data = [sampleDetection], timestamp = 1000\<rparr>"
    by (rule cacheResult_stores)
  have t: "cacheTimeout ?s = 5000" by (simp add: cacheResult_def RekognitionService_def)
  have c: "detectionCache ?s = [(''7'', \<lparr>data = [sampleDetection], timestamp = 1000\<rparr>)]"
    by (simp add: cacheResult_def RekognitionService_def)
  show ?thesis
    using getFromCache_ttl [OF h, of 5999] getFromCache_ttl [OF h, of 6000] h
    by (simp add: t c)
qed

section \<open>Quality score\<close>

lemma byte_bounds: "0 \<le> real (unat (b :: 8 word)) \<and> real (unat b) \<le> 255"
proof -
  have "unat b < 2 ^ 8" using unsigned_less [of b] by simp
  then have "unat b \<le> 255" by simp
  then have "real (unat b) \<le> real 255" by (rule of_nat_mono)
  moreover have "0 \<le> real (unat b)" by (rule of_nat_0_le_iff)
  ultimately show ?thesis by (simp only: of_nat_numeral simp_thms)
qed

lemma getLuminance_bounds: "0 \<le> getLuminance d i \<and> getLuminance d i \<le> 255"
proof (cases "i < 0 \<or> i \<ge> int (length d) - 2")
  case True
  then show ?thesis by (simp add: getLuminance_def)
next
  case False
  define r where "r = real (unat (d ! nat i))"
  define g where "g = real (unat (d ! nat (i + 1)))"
  define b where "b = real (unat (d ! nat (i + 2)))"
  have r: "0 \<le> r \<and> r \<le> 255" unfolding r_def by (rule byte_bounds)
  have g: "0 \<le> g \<and> g \<le> 255" unfolding g_def by (rule byte_bounds)
  have b: "0 \<le> b \<and> b \<le> 255" unfolding b_def by (rule byte_bounds)
  have "getLuminance d i = 0.299 * r + 0.587 * g + 0.114 * b"
    unfolding getLuminance_def r_def g_def b_def using False by (simp only: if_False)
  then show ?thesis using r g b by simp
qed


lemma sobel_arith:
  fixes a b c d e f :: real
  assumes "0 \<le> a \<and> a \<le> 255" "0 \<le> b \<and> b \<le> 255" "0 \<le> c \<and> c \<le> 255"
    "0 \<le> d \<and> d \<le> 255" "0 \<le> e \<and> e \<le> 255" "0 \<le> f \<and> f \<le> 255"
  shows "\<bar>(-1 * a) + (1 * b) + (-2 * c) + (2 * d) + (-1 * e) + (1 * f)\<bar> \<le> 1020"
proof -
  have "(-1 * a) + (1 * b) + (-2 * c) + (2 * d) + (-1 * e) + (1 * f) \<le> 1020"
    using assms by simp
  moreover have "- 1020 \<le> (-1 * a) + (1 * b) + (-2 * c) + (2 * d) + (-1 * e) + (1 * f)"
    using assms by simp
  ultimately show ?thesis by (simp only: abs_le_iff) simp
qed

lemma sobel_arith2:
  fixes a b c d e f :: real
  assumes "0 \<le> a \<and> a \<le> 255" "0 \<le> b \<and> b \<le> 255" "0 \<le> c \<and> c \<le> 255"
    "0 \<le> d \<and> d \<le> 255" "0 \<le> e \<and> e \<le> 255" "0 \<le> f \<and> f \<le> 255"
  shows "\<bar>(-1 * a) + (-2 * b) + (-1 * c) + (1 * d) + (2 * e) + (1 * f)\<bar> \<le> 1020"
proof -
  have "(-1 * a) + (-2 * b) + (-1 * c) + (1 * d) + (2 * e) + (1 * f) \<le> 1020"
    using assms by simp
  moreover have "- 1020 \<le> (-1 * a) + (-2 * b) + (-1 * c) + (1 * d) + (2 * e) + (1 * f)"
    using assms by simp
  ultimately show ?thesis by (simp only: abs_le_iff) simp
qed

lemma magnitude_bound:
  fixes gx gy :: real
  assumes "\<bar>gx\<bar> \<le> 1020" "\<bar>gy\<bar> \<le> 1020"
  shows "sqrt (gx * gx + gy * gy) \<le> 1020 * sqrt 2"
proof -
  have "\<bar>gx\<bar> * \<bar>gx\<bar> \<le> 1020 * 1020" using assms(1) by (intro mult_mono) auto
  then have x: "gx * gx \<le> 1020 * 1020" by (simp only: abs_mult_self_eq)
  have "\<bar>gy\<bar> * \<bar>gy\<bar> \<le> 1020 * 1020" using assms(2) by (intro mult_mono) auto
  then have y: "gy * gy \<le> 1020 * 1020" by (simp only: abs_mult_self_eq)
  have "gx * gx + gy * gy \<le> (1020 * 1020) * 2" using x y by simp
  then have "sqrt (gx * gx + gy * gy) \<le> sqrt ((1020 * 1020) * 2)" by (rule real_sqrt_le_mono)
  also have "\<dots> = 1020 * sqrt 2" by (simp only: real_sqrt_mult real_sqrt_abs2) simp
  finally show ?thesis .
qed

lemma sobelMagnitude_bounds:
  "0 \<le> sobelMagnitude d w idx \<and> sobelMagnitude d w idx \<le> 1020 * sqrt 2"
proof -
  note L = getLuminance_bounds
  have "sobelMagnitude d w idx \<le> 1020 * sqrt 2"
    unfolding sobelMagnitude_def Let_def
    by (rule magnitude_bound [OF sobel_arith [OF L L L L L L] sobel_arith2 [OF L L L L L L]])
  moreover have "0 \<le> sobelMagnitude d w idx"
    unfolding sobelMagnitude_def Let_def by (rule real_sqrt_ge_zero) simp
  ultimately show ?thesis by simp
qed


lemma sharpnessRow_inv:
  "0 \<le> sh \<and> sh \<le> (1020 * sqrt 2) * real c \<Longrightarrow>
   0 \<le> fst (sharpnessRow img y x sh c)
   \<and> fst (sharpnessRow img y x sh c) \<le> (1020 * sqrt 2) * real (snd (sharpnessRow img y x sh c))"
proof (induction img y x sh c rule: sharpnessRow.induct)
  case (1 img y x sharpness count)
  show ?case
  proof (cases "x < width img - 1")
    case True
    define m where "m = sobelMagnitude (pixels img) (int (width img))
                            ((int y * int (width img) + int x) * 4)"
    have mb: "0 \<le> m \<and> m \<le> 1020 * sqrt 2" unfolding m_def by (rule sobelMagnitude_bounds)
    have pre: "0 \<le> sharpness + m \<and> sharpness + m \<le> (1020 * sqrt 2) * real (count + 1)"
      using 1(2) mb by (simp add: algebra_simps)
    have "sharpnessRow img y x sharpness count = sharpnessRow img y (x + 4) (sharpness + m) (count + 1)"
      using True by (subst sharpnessRow.simps) (simp add: m_def)
    then show ?thesis using 1(1) [OF True, folded m_def, OF pre] by simp
  next
    case False
    then have "sharpnessRow img y x sharpness count = (sharpness, count)"
      by (subst sharpnessRow.simps) simp
    then show ?thesis using 1(2) by simp
  qed
qed

lemma sharpnessRows_inv:
  "0 \<le> sh \<and> sh \<le> (1020 * sqrt 2) * real c \<Longrightarrow>
   0 \<le> fst (sharpnessRows img y sh c)
   \<and> fst (sharpnessRows img y sh c) \<le> (1020 * sqrt 2) * real (snd (sharpnessRows img y sh c))"
proof (induction img y sh c rule: sharpnessRows.induct)
  case (1 img y sharpness count)
  show ?case
  proof (cases "y < height img - 1")
    case True
    obtain s' c' where r: "sharpnessRow img y 1 sharpness count = (s', c')"
      by (cases "sharpnessRow img y 1 sharpness count") auto
    have pre: "0 \<le> s' \<and> s' \<le> (1020 * sqrt 2) * real c'"
      using sharpnessRow_inv [OF 1(2), of img y 1] r by simp
    have "sharpnessRows img y sharpness count = sharpnessRows img (y + 1) s' c'"
      using True r by (subst sharpnessRows.simps) simp
    then show ?thesis using 1(1) [OF True r [symmetric] pre] by simp
  next
    case False
    then have "sharpnessRows img y sharpness count = (sharpness, count)"
      by (subst sharpnessRows.simps) simp
    then show ?thesis using 1(2) by simp
  qed
qed

lemma calculateSharpness_bounds:
  "0 \<le> calculateSharpness img \<and> calculateSharpness img \<le> 4 * sqrt 2"
proof -
  obtain sh c where r: "sharpnessRows img 1 0 0 = (sh, c)"
    by (cases "sharpnessRows img 1 0 0") auto
  have inv: "0 \<le> sh \<and> sh \<le> (1020 * sqrt 2) * real c"
    using sharpnessRows_inv [of 0 0 img 1] r by simp
  show ?thesis
  proof (cases "c > 0")
    case True
    have "sh / real c \<le> 1020 * sqrt 2"
      using inv True by (simp add: pos_divide_le_eq)
    then have "(sh / real c) / 255 \<le> (1020 * sqrt 2) / 255"
      by (rule divide_right_mono) simp
    moreover have "0 \<le> (sh / real c) / 255" using inv by simp
    ultimately show ?thesis using True r by (simp add: calculateSharpness_def)
  next
    case False
    then show ?thesis using r by (simp add: calculateSharpness_def)
  qed
qed


lemma byteAt_nonneg: "byteAt d i = Some v \<Longrightarrow> 0 \<le> v"
  using byte_bounds [of "d ! i"] by (auto simp only: byteAt_def split: if_splits)

lemma luminance_nonneg:
  "luminance (byteAt d i) (byteAt d j) (byteAt d k) = Some v \<Longrightarrow> 0 \<le> v"
  by (auto simp: luminance_def split: option.splits dest!: byteAt_nonneg)

lemma brightnessLoop_nonneg:
  "(\<forall>t. tot = Some t \<longrightarrow> 0 \<le> t) \<Longrightarrow>
   fst (brightnessLoop d i tot c) = Some v \<Longrightarrow> 0 \<le> v"
proof (induction d i tot c rule: brightnessLoop.induct)
  case (1 d i totalBrightness count)
  show ?case
  proof (cases "i < length d")
    case True
    define t' where
      "t' = addNum totalBrightness (luminance (byteAt d i) (byteAt d (i + 1)) (byteAt d (i + 2)))"
    have pre: "\<forall>t. t' = Some t \<longrightarrow> 0 \<le> t"
      using 1(2) luminance_nonneg [of d i "i + 1" "i + 2"]
      by (auto simp: t'_def addNum_def split: option.splits)
    have "brightnessLoop d i totalBrightness count = brightnessLoop d (i + 64) t' (count + 1)"
      using True by (subst brightnessLoop.simps) (simp add: t'_def)
    then show ?thesis using 1(1) [OF True, folded t'_def, OF pre] 1(3) by simp
  next
    case False
    then have "brightnessLoop d i totalBrightness count = (totalBrightness, count)"
      by (subst brightnessLoop.simps) simp
    then show ?thesis using 1(2,3) by simp
  qed
qed

lemma brightness_score_bounds:
  fixes a :: real
  assumes "0 \<le> a"
  shows "0 \<le> (if a < 50 then a / 50 * 0.5 else if a > 200 then max 0 (1 - (a - 200) / 55) else 1)
       \<and> (if a < 50 then a / 50 * 0.5 else if a > 200 then max 0 (1 - (a - 200) / 55) else 1) \<le> 1"
  using assms by auto

lemma calculateBrightness_bounds:
  "0 \<le> calculateBrightness img \<and> calculateBrightness img \<le> 1"
proof -
  obtain tot c where r: "brightnessLoop (pixels img) 0 (Some 0) 0 = (tot, c)"
    by (cases "brightnessLoop (pixels img) 0 (Some 0) 0") auto
  have nn: "\<And>v. tot = Some v \<Longrightarrow> 0 \<le> v"
    using brightnessLoop_nonneg [of "Some 0" "pixels img" 0 0] r by simp
  define avg where "avg = (if c > 0 then map_option (\<lambda>t. t / real c) tot else Some 0)"
  have cb: "calculateBrightness img =
      (case avg of None \<Rightarrow> 1
       | Some a \<Rightarrow> if a < 50 then a / 50 * 0.5
                   else if a > 200 then max 0 (1 - (a - 200) / 55) else 1)"
    by (simp add: calculateBrightness_def r avg_def)
  show ?thesis
  proof (cases avg)
    case None
    then show ?thesis by (simp add: cb)
  next
    case (Some a)
    have "0 \<le> a" using Some nn by (auto simp: avg_def split: if_splits)
    then show ?thesis using brightness_score_bounds [of a] by (simp only: cb Some option.case)
  qed
qed

text \<open>
  C2 (amended). For every frame, of any width, height and bytes: the brightness sub-score
  lies in [0,1]; the sharpness sub-score is at least 0 and at most \<open>4 * sqrt 2\<close> (the
  mean gradient magnitude is divided by 255, and a gradient magnitude reaches beyond 255);
  the combined score \<open>0.7 * sharpness + 0.3 * brightness\<close> lies between 0 and
  \<open>0.7 * (4 * sqrt 2) + 0.3\<close>.
\<close>

theorem qualityScore_bounds:
  "0 \<le> calculateSharpness img \<and> calculateSharpness img \<le> 4 * sqrt 2
   \<and> 0 \<le> calculateBrightness img \<and> calculateBrightness img \<le> 1
   \<and> 0 \<le> qualityScore img \<and> qualityScore img \<le> 0.7 * (4 * sqrt 2) + 0.3"
  using calculateSharpness_bounds [of img] calculateBrightness_bounds [of img]
  by (simp add: qualityScore_def)

lemma sharpnessRow_step:
  "x < width img - 1 \<Longrightarrow>
   sharpnessRow img y x sh c =
     sharpnessRow img y (x + 4)
       (sh + sobelMagnitude (pixels img) (int (width img)) ((int y * int (width img) + int x) * 4))
       (c + 1)"
  by (subst sharpnessRow.simps) simp

lemma sharpnessRow_stop: "\<not> x < width img - 1 \<Longrightarrow> sharpnessRow img y x sh c = (sh, c)"
  by (subst sharpnessRow.simps) simp

lemma sharpnessRows_step:
  "y < height img - 1 \<Longrightarrow>
   sharpnessRows img y sh c =
     sharpnessRows img (y + 1) (fst (sharpnessRow img y 1 sh c)) (snd (sharpnessRow img y 1 sh c))"
  by (subst sharpnessRows.simps) (simp add: case_prod_beta)

lemma sharpnessRows_stop: "\<not> y < height img - 1 \<Longrightarrow> sharpnessRows img y sh c = (sh, c)"
  by (subst sharpnessRows.simps) simp

lemma brightnessLoop_step:
  "i < length d \<Longrightarrow>
   brightnessLoop d i tot c =
     brightnessLoop d (i + 64)
       (addNum tot (luminance (byteAt d i) (byteAt d (i + 1)) (byteAt d (i + 2)))) (c + 1)"
  by (subst brightnessLoop.simps) simp

lemma brightnessLoop_stop: "\<not> i < length d \<Longrightarrow> brightnessLoop d i tot c = (tot, c)"
  by (subst brightnessLoop.simps) simp

lemma edge_lum:
  "getLuminance (pixels edgeImage) 0 = 0" "getLuminance (pixels edgeImage) 4 = 255"
  "getLuminance (pixels edgeImage) 8 = 255" "getLuminance (pixels edgeImage) 12 = 0"
  "getLuminance (pixels edgeImage) 20 = 255" "getLuminance (pixels edgeImage) 24 = 0"
  "getLuminance (pixels edgeImage) 28 = 255" "getLuminance (pixels edgeImage) 32 = 255"
  by (simp_all add: getLuminance_def edgeImage_def)

lemma edge_sobel: "sobelMagnitude (pixels edgeImage) 3 16 = 1020"
  by (simp add: sobelMagnitude_def edge_lum real_sqrt_abs2 [of 1020, simplified])

lemma edge_dims: "width edgeImage = 3" "height edgeImage = 3" "length (pixels edgeImage) = 36"
  by (simp_all add: edgeImage_def)

lemma edge_sharpness: "calculateSharpness edgeImage = 4"
  by (simp add: calculateSharpness_def sharpnessRows_step sharpnessRows_stop sharpnessRow_step
      sharpnessRow_stop edge_dims edge_sobel)

lemma edge_brightness: "calculateBrightness edgeImage = 0"
  by (simp add: calculateBrightness_def brightnessLoop_step brightnessLoop_stop edgeImage_def
      luminance_def byteAt_def addNum_def)

text \<open>
  C2 as stated fails on a 3 by 3 frame with a vertical edge: the sharpness sub-score is 4
  and the combined score is 2.8.
\<close>

theorem qualityScore_exceeds_one:
  "calculateSharpness edgeImage = 4 \<and> calculateBrightness edgeImage = 0
   \<and> qualityScore edgeImage = 2.8 \<and> \<not> qualityScore edgeImage \<le> 1"
  by (simp add: qualityScore_def edge_sharpness edge_brightness)

section \<open>Admission pipeline\<close>

lemma detectMotion_lastFrame:
  "lastFrame (snd (detectMotion s img)) = Some (copyImageData img)"
  by (simp add: detectMotion_def countMotion_def Let_def split: option.splits)

lemma detectMotion_fresh: "lastFrame s = None \<Longrightarrow> fst (detectMotion s img) = True"
  by (simp add: detectMotion_def)

lemma detectMotion_keeps:
  "lastScanTime (snd (detectMotion s img)) = lastScanTime s"
  "scanInterval (snd (detectMotion s img)) = scanInterval s"
  "isEnabled (snd (detectMotion s img)) = isEnabled s"
  "motionThreshold (snd (detectMotion s img)) = motionThreshold s"
  "qualityThreshold (snd (detectMotion s img)) = qualityThreshold s"
  "framesAnalyzed (stats (snd (detectMotion s img))) = framesAnalyzed (stats s)"
  "framesSkipped (stats (snd (detectMotion s img))) = framesSkipped (stats s)"
  "qualityPassed (stats (snd (detectMotion s img))) = qualityPassed (stats s)"
  by (simp_all add: detectMotion_def countMotion_def Let_def split: option.splits)

text \<open>
  C9. After every call of \<open>detectMotion\<close> on a frame, whatever it returns, the motion
  baseline \<open>lastFrame\<close> is the copy of that frame, and the copy has the content of the
  frame; on a fresh instance (no baseline) the call admits. In \<open>shouldProcessFrame\<close>,
  every frame that went past the throttle gate, also one that the motion check or the
  quality check then rejects, is the baseline afterwards.
\<close>

theorem detectMotion_replaces_baseline:
  "lastFrame (snd (detectMotion s img)) = Some (copyImageData img)
   \<and> copyImageData img = img
   \<and> (lastFrame s = None \<longrightarrow> fst (detectMotion s img) = True)
   \<and> (passedThrottle (fst (processFrame s fd now)) \<longrightarrow>
        lastFrame (snd (processFrame s fd now)) = Some (copyImageData (imageData fd)))"
proof -
  have "passedThrottle (fst (processFrame s fd now)) \<longrightarrow>
        lastFrame (snd (processFrame s fd now)) = Some (copyImageData (imageData fd))"
    using detectMotion_lastFrame [of "countAnalyzed s" "imageData fd"]
    by (auto simp: processFrame_def Let_def passedThrottle_def countSkipped_def
        countQualityPassed_def split: prod.splits if_splits)
  then show ?thesis
    using detectMotion_lastFrame [of s img] detectMotion_fresh [of s img]
    by (simp add: copyImageData_def)
qed


lemma frameDifferenceLoop_step:
  "i < length data1 \<Longrightarrow>
   frameDifferenceLoop data1 data2 i tot c =
     frameDifferenceLoop data1 data2 (i + 16)
       (addNum tot
          (absDiff (luminance (byteAt data1 i) (byteAt data1 (i + 1)) (byteAt data1 (i + 2)))
                   (luminance (byteAt data2 i) (byteAt data2 (i + 1)) (byteAt data2 (i + 2)))))
       (c + 1)"
  by (subst frameDifferenceLoop.simps) (simp add: Let_def)

lemma frameDifferenceLoop_stop:
  "\<not> i < length data1 \<Longrightarrow> frameDifferenceLoop data1 data2 i tot c = (tot, c)"
  by (subst frameDifferenceLoop.simps) simp

lemma black_quality: "qualityScore blackPixel = 0"
  by (simp add: qualityScore_def calculateSharpness_def calculateBrightness_def
      sharpnessRows_stop brightnessLoop_step brightnessLoop_stop blackPixel_def
      luminance_def byteAt_def addNum_def)

lemma black_difference: "calculateFrameDifference blackPixel blackPixel = Some 0"
  by (simp add: calculateFrameDifference_def frameDifferenceLoop_step frameDifferenceLoop_stop
      blackPixel_def luminance_def byteAt_def addNum_def absDiff_def)

lemma edge2_difference: "calculateFrameDifference edgeImage2 edgeImage = Some 1"
  by (simp add: calculateFrameDifference_def frameDifferenceLoop_step frameDifferenceLoop_stop
      edgeImage_def edgeImage2_def luminance_def byteAt_def addNum_def absDiff_def)

lemma first_black:
  "processFrame SmartDetection blackFrame 5000 =
     (LowQuality,
      SmartDetection\<lparr>lastFrame := Some blackPixel,
                     stats := \<lparr>framesAnalyzed = 1, framesSkipped = 1, motionDetected = 1,
                               qualityPassed = 0\<rparr>\<rparr>)"
  by (simp add: processFrame_def detectMotion_def assessImageQuality_def black_quality
      SmartDetection_def blackFrame_def countAnalyzed_def countSkipped_def countMotion_def
      copyImageData_def blackPixel_def [symmetric])


lemma edge_quality: "qualityScore edgeImage = 2.8"
  by (simp add: qualityScore_def edge_sharpness edge_brightness)

lemma processFrame_alt:
  "processFrame s fd now =
     (if \<not> isEnabled s then (Bypass, s)
      else if now - lastScanTime s < scanInterval s
        then (Throttled, countSkipped (countAnalyzed s))
      else if \<not> fst (detectMotion (countAnalyzed s) (imageData fd))
        then (NoMotion, countSkipped (snd (detectMotion (countAnalyzed s) (imageData fd))))
      else if \<not> assessImageQuality (snd (detectMotion (countAnalyzed s) (imageData fd)))
                   (imageData fd)
        then (LowQuality, countSkipped (snd (detectMotion (countAnalyzed s) (imageData fd))))
      else (Admitted,
            countQualityPassed
              ((snd (detectMotion (countAnalyzed s) (imageData fd)))\<lparr>lastScanTime := now\<rparr>)))"
  by (simp add: processFrame_def Let_def case_prod_beta countAnalyzed_def)

lemma count_fields [simp]:
  "lastScanTime (countAnalyzed s) = lastScanTime s" "scanInterval (countAnalyzed s) = scanInterval s"
  "isEnabled (countAnalyzed s) = isEnabled s" "lastFrame (countAnalyzed s) = lastFrame s"
  "lastScanTime (countSkipped s) = lastScanTime s" "scanInterval (countSkipped s) = scanInterval s"
  "isEnabled (countSkipped s) = isEnabled s" "lastFrame (countSkipped s) = lastFrame s"
  "lastScanTime (countQualityPassed s) = lastScanTime s"
  "scanInterval (countQualityPassed s) = scanInterval s"
  "isEnabled (countQualityPassed s) = isEnabled s" "lastFrame (countQualityPassed s) = lastFrame s"
  "motionThreshold (countAnalyzed s) = motionThreshold s"
  "qualityThreshold (countAnalyzed s) = qualityThreshold s"
  by (simp_all add: countAnalyzed_def countSkipped_def countQualityPassed_def)

lemma processFrame_keeps:
  "scanInterval (snd (processFrame s fd now)) = scanInterval s"
  "isEnabled (snd (processFrame s fd now)) = isEnabled s"
  by (simp_all add: processFrame_alt detectMotion_keeps)

text \<open>
  C3 (amended). For every frame evaluation of an enabled instance at clock reading \<open>now\<close>,
  the throttle lets the frame pass iff \<open>now - lastScanTime \<ge> scanInterval\<close>.
  \<open>lastScanTime\<close> becomes \<open>now\<close> exactly when the frame is admitted by all three
  gates, which is when \<open>shouldProcessFrame\<close> returns true; a frame that passes the
  throttle and is rejected by the motion or the quality check leaves \<open>lastScanTime\<close>
  as it was.
\<close>

theorem throttle_gate_contract:
  assumes "isEnabled s"
  shows "(passedThrottle (fst (processFrame s fd now)) \<longleftrightarrow> now - lastScanTime s \<ge> scanInterval s)
       \<and> (fst (processFrame s fd now) = Admitted \<longrightarrow>
            lastScanTime (snd (processFrame s fd now)) = now)
       \<and> (fst (processFrame s fd now) \<noteq> Admitted \<longrightarrow>
            lastScanTime (snd (processFrame s fd now)) = lastScanTime s)
       \<and> (fst (shouldProcessFrame s fd now) \<longleftrightarrow> fst (processFrame s fd now) = Admitted)"
  using assms
  by (simp add: processFrame_alt detectMotion_keeps passedThrottle_def shouldProcessFrame_def
      returnValue_def case_prod_beta)


lemma edge2_quality: "qualityScore edgeImage2 = 2.8"
proof -
  have lum: "getLuminance (pixels edgeImage2) 0 = 255" "getLuminance (pixels edgeImage2) 4 = 0"
    "getLuminance (pixels edgeImage2) 8 = 0" "getLuminance (pixels edgeImage2) 12 = 255"
    "getLuminance (pixels edgeImage2) 20 = 0" "getLuminance (pixels edgeImage2) 24 = 255"
    "getLuminance (pixels edgeImage2) 28 = 0" "getLuminance (pixels edgeImage2) 32 = 0"
    by (simp_all add: getLuminance_def edgeImage2_def)
  have m: "sobelMagnitude (pixels edgeImage2) 3 16 = 1020"
    by (simp add: sobelMagnitude_def lum real_sqrt_abs2 [of 1020, simplified])
  have d: "width edgeImage2 = 3" "height edgeImage2 = 3"
    by (simp_all add: edgeImage2_def)
  have sh: "calculateSharpness edgeImage2 = 4"
    by (simp add: calculateSharpness_def sharpnessRows_step sharpnessRows_stop sharpnessRow_step
        sharpnessRow_stop d m)
  have br: "calculateBrightness edgeImage2 = 0"
    by (simp add: calculateBrightness_def brightnessLoop_step brightnessLoop_stop edgeImage2_def
        luminance_def byteAt_def addNum_def)
  show ?thesis by (simp add: qualityScore_def sh br)
qed

lemma copy_id: "copyImageData img = img"
  by (simp add: copyImageData_def)

lemma first_edge:
  "processFrame SmartDetection edgeFrame 5000 =
     (Admitted,
      SmartDetection\<lparr>lastFrame := Some edgeImage, lastScanTime := 5000,
                     stats := \<lparr>framesAnalyzed = 1, framesSkipped = 0, motionDetected = 1,
                               qualityPassed = 1\<rparr>\<rparr>)"
  by (simp add: processFrame_def detectMotion_def assessImageQuality_def edge_quality
      SmartDetection_def edgeFrame_def countAnalyzed_def countQualityPassed_def countMotion_def
      copy_id)

lemma black_after_black:
  assumes "isEnabled s" "lastFrame s = Some blackPixel" "scanInterval s \<le> now - lastScanTime s"
    "motionThreshold s = 0.1"
  shows "fst (processFrame s blackFrame now) = NoMotion"
  using assms
  by (simp add: processFrame_alt detectMotion_def black_difference blackFrame_def)

lemma edge2_after_edge:
  assumes "isEnabled s" "lastFrame s = Some edgeImage" "scanInterval s \<le> now - lastScanTime s"
    "motionThreshold s = 0.1" "qualityThreshold s = 0.7"
  shows "fst (processFrame s edgeFrame2 now) = Admitted"
  using assms
  by (simp add: processFrame_alt detectMotion_def edge2_difference edge2_quality edgeFrame2_def
      assessImageQuality_def countMotion_def)

lemma enabled_new: "isEnabled SmartDetection" "lastScanTime SmartDetection = 0"
  "scanInterval SmartDetection = 2000"
  by (simp_all add: SmartDetection_def)

theorem throttle_gate_contract_witness:
  "isEnabled SmartDetection
   \<and> passedThrottle (fst (processFrame SmartDetection edgeFrame 5000))
   \<and> scanInterval SmartDetection \<le> 5000 - lastScanTime SmartDetection
   \<and> fst (processFrame SmartDetection edgeFrame 5000) = Admitted
   \<and> lastScanTime (snd (processFrame SmartDetection edgeFrame 5000)) = 5000
   \<and> fst (shouldProcessFrame SmartDetection edgeFrame 5000)
   \<and> fst (processFrame SmartDetection blackFrame 5000) \<noteq> Admitted
   \<and> lastScanTime (snd (processFrame SmartDetection blackFrame 5000)) = lastScanTime SmartDetection"
  using throttle_gate_contract [OF enabled_new(1), of edgeFrame 5000]
    throttle_gate_contract [OF enabled_new(1), of blackFrame 5000]
  by (simp add: first_edge first_black enabled_new)

text \<open>
  C3 as stated fails on a new instance at \<open>now = 5000\<close> with a frame of one black pixel:
  the throttle lets the frame pass, the quality check rejects it, and \<open>lastScanTime\<close>
  is still 0.
\<close>

theorem throttle_admits_without_update:
  "isEnabled SmartDetection
   \<and> scanInterval SmartDetection \<le> 5000 - lastScanTime SmartDetection
   \<and> passedThrottle (fst (processFrame SmartDetection blackFrame 5000))
   \<and> lastScanTime (snd (processFrame SmartDetection blackFrame 5000)) = 0
   \<and> lastScanTime (snd (processFrame SmartDetection blackFrame 5000)) \<noteq> 5000"
  by (simp add: first_black enabled_new passedThrottle_def)

text \<open>
  C5 (amended). When the instance is disabled, \<open>shouldProcessFrame\<close> returns true for
  every frame and leaves the whole instance unchanged: no counter moves, not even
  \<open>framesAnalyzed\<close>, and the motion baseline and \<open>lastScanTime\<close> are untouched.
\<close>

theorem disabled_bypass:
  assumes "\<not> isEnabled s"
  shows "shouldProcessFrame s fd now = (True, s)"
  using assms by (simp add: shouldProcessFrame_def processFrame_def returnValue_def)

theorem disabled_bypass_witness:
  "\<not> isEnabled (setEnabled SmartDetection False)
   \<and> shouldProcessFrame (setEnabled SmartDetection False) edgeFrame 5000
       = (True, setEnabled SmartDetection False)"
proof -
  have d: "\<not> isEnabled (setEnabled SmartDetection False)" by (simp add: setEnabled_def)
  show ?thesis using disabled_bypass [OF d, of edgeFrame 5000] d by simp
qed

text \<open>
  C5 as stated fails: a disabled instance returns true and \<open>framesAnalyzed\<close> stays 0
  (the return precedes the increment).
\<close>

theorem disabled_does_not_count_frame:
  "\<not> isEnabled (setEnabled SmartDetection False)
   \<and> fst (shouldProcessFrame (setEnabled SmartDetection False) blackFrame 5000) = True
   \<and> framesAnalyzed (stats (setEnabled SmartDetection False)) = 0
   \<and> framesAnalyzed (stats (snd (shouldProcessFrame (setEnabled SmartDetection False) blackFrame 5000))) = 0"
  by (simp add: shouldProcessFrame_def processFrame_def returnValue_def setEnabled_def
      SmartDetection_def)

text \<open>
  C8. For every frame of an enabled instance that the throttle rejects,
  \<open>shouldProcessFrame\<close> returns false, \<open>framesAnalyzed\<close> and \<open>framesSkipped\<close> each grow
  by one and nothing else changes: neither the motion check nor the quality check has
  run (\<open>motionDetected\<close>, \<open>qualityPassed\<close> and \<open>lastFrame\<close> are as before), so a
  following motion evaluation of any frame decides as it would have decided before.
\<close>

theorem throttle_rejection_short_circuits:
  assumes "isEnabled s" "now - lastScanTime s < scanInterval s"
  shows "processFrame s fd now = (Throttled, countSkipped (countAnalyzed s))
       \<and> fst (shouldProcessFrame s fd now) = False
       \<and> snd (shouldProcessFrame s fd now)
           = s\<lparr>stats := (stats s)\<lparr>framesAnalyzed := framesAnalyzed (stats s) + 1,
                                  framesSkipped := framesSkipped (stats s) + 1\<rparr>\<rparr>
       \<and> lastFrame (snd (shouldProcessFrame s fd now)) = lastFrame s
       \<and> motionDetected (stats (snd (shouldProcessFrame s fd now))) = motionDetected (stats s)
       \<and> qualityPassed (stats (snd (shouldProcessFrame s fd now))) = qualityPassed (stats s)
       \<and> fst (detectMotion (snd (shouldProcessFrame s fd now)) img) = fst (detectMotion s img)"
  using assms
  by (simp add: shouldProcessFrame_def processFrame_alt returnValue_def countSkipped_def
      countAnalyzed_def detectMotion_def Let_def split: option.splits)

theorem throttle_rejection_short_circuits_witness:
  "isEnabled SmartDetection \<and> 1000 - lastScanTime SmartDetection < scanInterval SmartDetection
   \<and> processFrame SmartDetection edgeFrame 1000 = (Throttled, countSkipped (countAnalyzed SmartDetection))
   \<and> fst (shouldProcessFrame SmartDetection edgeFrame 1000) = False
   \<and> lastFrame (snd (shouldProcessFrame SmartDetection edgeFrame 1000)) = None
   \<and> framesSkipped (stats (snd (shouldProcessFrame SmartDetection edgeFrame 1000))) = 1
   \<and> motionDetected (stats (snd (shouldProcessFrame SmartDetection edgeFrame 1000))) = 0"
proof -
  have t: "1000 - lastScanTime SmartDetection < scanInterval SmartDetection"
    by (simp add: enabled_new)
  show ?thesis
    using throttle_rejection_short_circuits [OF enabled_new(1) t, of edgeFrame edgeImage] t
    by (simp add: enabled_new) (simp add: SmartDetection_def)
qed

theorem detectMotion_replaces_baseline_witness:
  "lastFrame SmartDetection = None
   \<and> fst (detectMotion SmartDetection blackPixel) = True
   \<and> lastFrame (snd (detectMotion SmartDetection blackPixel)) = Some blackPixel
   \<and> passedThrottle (fst (processFrame SmartDetection blackFrame 5000))
   \<and> fst (processFrame SmartDetection blackFrame 5000) = LowQuality
   \<and> lastFrame (snd (processFrame SmartDetection blackFrame 5000)) = Some blackPixel"
  using detectMotion_replaces_baseline [of SmartDetection blackPixel blackFrame 5000]
  by (simp add: first_black passedThrottle_def) (simp add: SmartDetection_def)


lemma processFrame_admitted:
  assumes "isEnabled s" "fst (processFrame s fd now) = Admitted"
  shows "lastScanTime (snd (processFrame s fd now)) = now"
    and "scanInterval s \<le> now - lastScanTime s"
  using assms by (auto simp: processFrame_alt split: if_splits)

lemma processFrame_not_admitted:
  assumes "fst (processFrame s fd now) \<noteq> Admitted"
  shows "lastScanTime (snd (processFrame s fd now)) = lastScanTime s"
  using assms by (auto simp: processFrame_alt detectMotion_keeps split: if_splits)

lemma admittedTimes_Cons:
  "admittedTimes s ((fd, now) # rest) =
     (if fst (processFrame s fd now) = Admitted
      then now # admittedTimes (snd (processFrame s fd now)) rest
      else admittedTimes (snd (processFrame s fd now)) rest)"
  by (simp add: admittedTimes_def)

lemma admitted_after_last:
  "isEnabled s \<Longrightarrow> 0 \<le> scanInterval s \<Longrightarrow> t \<in> set (admittedTimes s calls) \<Longrightarrow>
   scanInterval s \<le> t - lastScanTime s"
proof (induction calls arbitrary: s)
  case Nil
  then show ?case by (simp add: admittedTimes_def)
next
  case (Cons c calls)
  obtain fd now where c: "c = (fd, now)" by (cases c) auto
  let ?s' = "snd (processFrame s fd now)"
  have en: "isEnabled ?s'" and si: "scanInterval ?s' = scanInterval s"
    using Cons.prems(1) by (simp_all add: processFrame_keeps)
  show ?case
  proof (cases "fst (processFrame s fd now) = Admitted")
    case True
    have l: "lastScanTime ?s' = now" and g: "scanInterval s \<le> now - lastScanTime s"
      using processFrame_admitted [OF Cons.prems(1) True] by simp_all
    have "t = now \<or> t \<in> set (admittedTimes ?s' calls)"
      using Cons.prems(3) True by (simp add: c admittedTimes_Cons)
    then show ?thesis
    proof
      assume "t = now"
      then show ?thesis using g by simp
    next
      assume "t \<in> set (admittedTimes ?s' calls)"
      then have "scanInterval ?s' \<le> t - lastScanTime ?s'"
        using Cons.IH [of ?s'] en si Cons.prems(2) by simp
      then show ?thesis using g l si Cons.prems(2) by simp
    qed
  next
    case False
    have l: "lastScanTime ?s' = lastScanTime s"
      using processFrame_not_admitted [OF False] .
    have "t \<in> set (admittedTimes ?s' calls)"
      using Cons.prems(3) False by (simp add: c admittedTimes_Cons)
    then have "scanInterval ?s' \<le> t - lastScanTime ?s'"
      using Cons.IH [of ?s'] en si Cons.prems(2) by simp
    then show ?thesis using l si by simp
  qed
qed

lemma admitted_spacing_nonneg:
  "isEnabled s \<Longrightarrow> 0 \<le> scanInterval s \<Longrightarrow> t1 \<in> set (admittedTimes s calls) \<Longrightarrow>
   t2 \<in> set (admittedTimes s calls) \<Longrightarrow> t1 < t2 \<Longrightarrow> scanInterval s \<le> t2 - t1"
proof (induction calls arbitrary: s)
  case Nil
  then show ?case by (simp add: admittedTimes_def)
next
  case (Cons c calls)
  obtain fd now where c: "c = (fd, now)" by (cases c) auto
  let ?s' = "snd (processFrame s fd now)"
  have en: "isEnabled ?s'" and si: "scanInterval ?s' = scanInterval s"
    using Cons.prems(1) by (simp_all add: processFrame_keeps)
  note IH = Cons.IH [of ?s', unfolded si, OF en Cons.prems(2)]
  show ?case
  proof (cases "fst (processFrame s fd now) = Admitted")
    case True
    have l: "lastScanTime ?s' = now"
      using processFrame_admitted(1) [OF Cons.prems(1) True] .
    have later: "\<And>t. t \<in> set (admittedTimes ?s' calls) \<Longrightarrow> scanInterval s \<le> t - now"
      using admitted_after_last [of ?s' _ calls] en si l Cons.prems(2) by simp
    have m1: "t1 = now \<or> t1 \<in> set (admittedTimes ?s' calls)"
      using Cons.prems(3) True by (simp add: c admittedTimes_Cons)
    have m2: "t2 = now \<or> t2 \<in> set (admittedTimes ?s' calls)"
      using Cons.prems(4) True by (simp add: c admittedTimes_Cons)
    show ?thesis
    proof (cases "t1 \<in> set (admittedTimes ?s' calls)")
      case t1in: True
      show ?thesis
      proof (cases "t2 \<in> set (admittedTimes ?s' calls)")
        case True
        then show ?thesis using IH t1in Cons.prems(5) by simp
      next
        case False
        then have "t2 = now" using m2 by simp
        then show ?thesis using later [OF t1in] Cons.prems(2,5) by simp
      qed
    next
      case False
      then have t1: "t1 = now" using m1 by simp
      then have "t2 \<in> set (admittedTimes ?s' calls)" using m2 Cons.prems(5) by auto
      then show ?thesis using later t1 by simp
    qed
  next
    case False
    have "t1 \<in> set (admittedTimes ?s' calls)" "t2 \<in> set (admittedTimes ?s' calls)"
      using Cons.prems(3,4) False by (simp_all add: c admittedTimes_Cons)
    then show ?thesis using IH Cons.prems(5) by simp
  qed
qed

text \<open>
  C4 (amended). In any run of \<open>shouldProcessFrame\<close> calls on an enabled instance, any
  two frames admitted by all three gates (the calls that return true) at clock readings
  \<open>t1 < t2\<close> satisfy \<open>t2 - t1 \<ge> scanInterval\<close>.
\<close>

theorem admitted_frames_spacing:
  assumes "isEnabled s" "t1 \<in> set (admittedTimes s calls)" "t2 \<in> set (admittedTimes s calls)"
    "t1 < t2"
  shows "scanInterval s \<le> t2 - t1"
proof (cases "0 \<le> scanInterval s")
  case True
  then show ?thesis using admitted_spacing_nonneg assms by blast
next
  case False
  then show ?thesis using assms(4) by simp
qed

lemma two_edges:
  "verdicts SmartDetection [(edgeFrame, 5000), (edgeFrame2, 7000)]
     = [(5000, Admitted), (7000, Admitted)]"
proof -
  have "fst (processFrame (snd (processFrame SmartDetection edgeFrame 5000)) edgeFrame2 7000)
          = Admitted"
    by (rule edge2_after_edge) (simp_all add: first_edge, simp_all add: SmartDetection_def)
  then show ?thesis by (simp add: first_edge)
qed

lemma two_blacks:
  "verdicts SmartDetection [(blackFrame, 5000), (blackFrame, 5100)]
     = [(5000, LowQuality), (5100, NoMotion)]"
proof -
  have "fst (processFrame (snd (processFrame SmartDetection blackFrame 5000)) blackFrame 5100)
          = NoMotion"
    by (rule black_after_black) (simp_all add: first_black, simp_all add: SmartDetection_def)
  then show ?thesis by (simp add: first_black)
qed

theorem admitted_frames_spacing_witness:
  "isEnabled SmartDetection
   \<and> admittedTimes SmartDetection [(edgeFrame, 5000), (edgeFrame2, 7000)] = [5000, 7000]
   \<and> (5000::int) < 7000
   \<and> scanInterval SmartDetection \<le> 7000 - 5000"
proof -
  have a: "admittedTimes SmartDetection [(edgeFrame, 5000), (edgeFrame2, 7000)] = [5000, 7000]"
    by (simp only: admittedTimes_def two_edges) simp
  have "scanInterval SmartDetection \<le> 7000 - 5000"
    by (rule admitted_frames_spacing [OF enabled_new(1),
          of 5000 "[(edgeFrame, 5000), (edgeFrame2, 7000)]" 7000]) (simp_all add: a)
  then show ?thesis using a enabled_new(1) by simp
qed

text \<open>
  C4 as stated, for the frames that went past the throttle gate, fails: on a new instance
  two frames at 5000 and 5100 both pass the throttle (the first is rejected by the quality
  check, so \<open>lastScanTime\<close> does not move), and they are 100 apart with
  \<open>scanInterval = 2000\<close>.
\<close>

theorem throttle_passed_frames_too_close:
  "isEnabled SmartDetection
   \<and> throttlePassedTimes SmartDetection [(blackFrame, 5000), (blackFrame, 5100)] = [5000, 5100]
   \<and> (5000::int) < 5100
   \<and> \<not> scanInterval SmartDetection \<le> 5100 - 5000"
  by (simp only: throttlePassedTimes_def two_blacks) (simp add: passedThrottle_def enabled_new)

lemma statsConsistent_step:
  assumes "statsConsistent s"
  shows "statsConsistent (snd (shouldProcessFrame s fd now))"
proof -
  let ?s1 = "countAnalyzed s"
  let ?m = "snd (detectMotion ?s1 (imageData fd))"
  have a: "framesAnalyzed (stats ?s1) = framesAnalyzed (stats s) + 1"
    "framesSkipped (stats ?s1) = framesSkipped (stats s)"
    "qualityPassed (stats ?s1) = qualityPassed (stats s)"
    by (simp_all add: countAnalyzed_def)
  have m: "framesAnalyzed (stats ?m) = framesAnalyzed (stats s) + 1"
    "framesSkipped (stats ?m) = framesSkipped (stats s)"
    "qualityPassed (stats ?m) = qualityPassed (stats s)"
    using detectMotion_keeps(6,7,8) [of ?s1 "imageData fd"] a by simp_all
  have "statsConsistent (snd (processFrame s fd now))"
    using assms a m
    by (simp add: processFrame_alt statsConsistent_def countSkipped_def countQualityPassed_def)
  then show ?thesis by (simp add: shouldProcessFrame_def case_prod_beta)
qed

lemma statsConsistent_processAll:
  "statsConsistent s \<Longrightarrow> statsConsistent (processAll s calls)"
  by (induction calls arbitrary: s) (auto simp: statsConsistent_step)

text \<open>
  C10. Starting from a new instance or from a reset one, after every call of every
  sequence of \<open>shouldProcessFrame\<close> calls (every prefix \<open>take n calls\<close>),
  \<open>framesAnalyzed = framesSkipped + qualityPassed\<close>.
\<close>

theorem stats_consistency:
  assumes "s0 = SmartDetection \<or> s0 = reset s"
  shows "statsConsistent (processAll s0 (take n calls))"
proof -
  have "statsConsistent s0"
    using assms by (auto simp: statsConsistent_def SmartDetection_def reset_def)
  then show ?thesis by (rule statsConsistent_processAll)
qed

theorem stats_consistency_witness:
  "(SmartDetection = SmartDetection \<or> SmartDetection = reset SmartDetection)
   \<and> statsConsistent (processAll SmartDetection (take 2 [(edgeFrame, 5000), (edgeFrame2, 5100)]))
   \<and> stats (processAll SmartDetection [(edgeFrame, 5000), (edgeFrame2, 5100)])
       = \<lparr>framesAnalyzed = 2, framesSkipped = 1, motionDetected = 1, qualityPassed = 1\<rparr>
   \<and> statsConsistent (processAll (reset SmartDetection) (take 1 [(edgeFrame, 5000)]))"
proof -
  have h: "SmartDetection = SmartDetection \<or> SmartDetection = reset SmartDetection" by simp
  have h': "reset SmartDetection = SmartDetection \<or> reset SmartDetection = reset SmartDetection"
    by simp
  have a: "statsConsistent (processAll SmartDetection (take 2 [(edgeFrame, 5000), (edgeFrame2, 5100)]))"
    by (rule stats_consistency [OF h])
  have b: "statsConsistent (processAll (reset SmartDetection) (take 1 [(edgeFrame, 5000)]))"
    by (rule stats_consistency [OF h'])
  have c: "stats (processAll SmartDetection [(edgeFrame, 5000), (edgeFrame2, 5100)])
       = \<lparr>framesAnalyzed = 2, framesSkipped = 1, motionDetected = 1, qualityPassed = 1\<rparr>"
    by (simp add: shouldProcessFrame_def first_edge)
       (simp add: processFrame_alt SmartDetection_def countSkipped_def countAnalyzed_def)
  show ?thesis using h a b c by blast
qed

section \<open>Dispatch: retries and error classification\<close>

lemma getFromCache_absent:
  "map_of (detectionCache s) key = None \<Longrightarrow> getFromCache s key now = (None, s)"
  by (simp add: getFromCache_def)

lemma getFromCache_miss_absent:
  "fst (getFromCache s key now) = None \<Longrightarrow>
   map_of (detectionCache (snd (getFromCache s key now))) key = None"
  by (auto simp: getFromCache_def delete_conv' split: option.splits if_splits)

lemma getFromCache_keeps:
  "isInitialized (snd (getFromCache s key now)) = isInitialized s"
  "maxRetries (snd (getFromCache s key now)) = maxRetries s"
  "confidenceThreshold (snd (getFromCache s key now)) = confidenceThreshold s"
  "rstats (snd (getFromCache s key now)) = rstats s"
  by (auto simp: getFromCache_def split: option.splits)

lemma attempt_remote_error:
  assumes "fst (getFromCache s (generateCacheKey url) (nowLookup env rc)) = None"
    and "dataUrlToBytes env url = Inr bytes"
    and "detectCustomLabels env rc bytes (confidenceThreshold s * 100) = Inl e"
  shows "attempt env s url rc
           = (Inl e, countApiCall (snd (getFromCache s (generateCacheKey url) (nowLookup env rc))),
              [RemoteCall])"
  using assms
  by (simp add: attempt_def Let_def case_prod_beta countApiCall_def getFromCache_keeps)

text \<open>The service after a failed attempt: the cache lookup, one call and one error counted.\<close>

lemma detectLogo_fatal:
  assumes "isInitialized s"
    and "fst (getFromCache s (generateCacheKey url) (nowLookup env rc)) = None"
    and "dataUrlToBytes env url = Inr bytes"
    and "detectCustomLabels env rc bytes (confidenceThreshold s * 100) = Inl e"
    and "\<not> (rc < maxRetries s \<and> isRetryableError e)"
  shows "detectLogo env s url rc
           = (Inl (handleRekognitionError e),
              countError (countApiCall (snd (getFromCache s (generateCacheKey url) (nowLookup env rc)))),
              [RemoteCall])"
  using assms(1,5)
  by (subst detectLogo.simps) (auto simp: attempt_remote_error [OF assms(2,3,4)] Let_def)

lemma detectLogo_retry:
  assumes "isInitialized s"
    and "fst (getFromCache s (generateCacheKey url) (nowLookup env rc)) = None"
    and "dataUrlToBytes env url = Inr bytes"
    and "detectCustomLabels env rc bytes (confidenceThreshold s * 100) = Inl e"
    and "rc < maxRetries s" "isRetryableError e"
  shows "detectLogo env s url rc
           = (case detectLogo env
                     (countError (countApiCall (snd (getFromCache s (generateCacheKey url) (nowLookup env rc)))))
                     url (rc + 1) of
                (r, s3, evs') \<Rightarrow> (r, s3, [RemoteCall] @ Delay (1000 * (int rc + 1)) # evs'))"
  using assms(1,5,6)
  by (subst detectLogo.simps) (simp add: attempt_remote_error [OF assms(2,3,4)] Let_def)


lemma after_failure:
  fixes s key now
  defines "s' \<equiv> countError (countApiCall (snd (getFromCache s key now)))"
  assumes "fst (getFromCache s key now) = None"
  shows "isInitialized s' = isInitialized s" "maxRetries s' = maxRetries s"
    "confidenceThreshold s' = confidenceThreshold s"
    "apiCalls (rstats s') = apiCalls (rstats s) + 1"
    "errors (rstats s') = errors (rstats s) + 1"
    "fst (getFromCache s' key now') = None"
proof -
  have "map_of (detectionCache s') key = None"
    using getFromCache_miss_absent [OF assms(2)]
    by (simp add: s'_def countError_def countApiCall_def)
  then show "fst (getFromCache s' key now') = None"
    by (simp add: getFromCache_absent)
qed (simp_all add: s'_def countError_def countApiCall_def getFromCache_keeps)

text \<open>The events of the attempts from retry count \<open>rc\<close> up to \<open>m\<close>.\<close>

lemma retry_events_unfold:
  "rc < m \<Longrightarrow>
   concat (map (\<lambda>k. [RemoteCall, Delay (1000 * (int k + 1))]) [rc..<m]) @ [RemoteCall]
     = [RemoteCall] @ Delay (1000 * (int rc + 1))
         # (concat (map (\<lambda>k. [RemoteCall, Delay (1000 * (int k + 1))]) [rc + 1..<m]) @ [RemoteCall])"
  by (simp add: upt_conv_Cons)

lemma detectLogo_all_retryable:
  assumes "n = maxRetries s - rc" "rc \<le> maxRetries s" "isInitialized s"
    and "fst (getFromCache s (generateCacheKey url) (nowLookup env rc)) = None"
    and "dataUrlToBytes env url = Inr bytes"
    and "\<forall>k. rc \<le> k \<and> k \<le> maxRetries s \<longrightarrow>
           (\<exists>e. detectCustomLabels env k bytes (confidenceThreshold s * 100) = Inl e
                \<and> isRetryableError e)"
  shows "snd (snd (detectLogo env s url rc))
           = concat (map (\<lambda>k. [RemoteCall, Delay (1000 * (int k + 1))]) [rc..<maxRetries s])
               @ [RemoteCall]
       \<and> apiCalls (rstats (fst (snd (detectLogo env s url rc))))
           = apiCalls (rstats s) + (maxRetries s - rc) + 1
       \<and> errors (rstats (fst (snd (detectLogo env s url rc))))
           = errors (rstats s) + (maxRetries s - rc) + 1
       \<and> (\<forall>e. detectCustomLabels env (maxRetries s) bytes (confidenceThreshold s * 100) = Inl e
              \<longrightarrow> fst (detectLogo env s url rc) = Inl (handleRekognitionError e))"
  using assms
proof (induction n arbitrary: s rc)
  case 0
  then have rc: "rc = maxRetries s" by simp
  obtain e where e: "detectCustomLabels env rc bytes (confidenceThreshold s * 100) = Inl e"
    using "0.prems"(2,6) by blast
  have "\<not> (rc < maxRetries s \<and> isRetryableError e)" using rc by simp
  note d = detectLogo_fatal [OF "0.prems"(3,4,5) e this]
  show ?case
    using e after_failure(4,5) [OF "0.prems"(4)]
    by (simp add: d rc [symmetric])
next
  case (Suc n)
  then have lt: "rc < maxRetries s" by simp
  obtain e where e: "detectCustomLabels env rc bytes (confidenceThreshold s * 100) = Inl e"
    and re: "isRetryableError e"
    using Suc.prems(2,6) by blast
  define s' where
    "s' = countError (countApiCall (snd (getFromCache s (generateCacheKey url) (nowLookup env rc))))"
  note af = after_failure [OF Suc.prems(4), folded s'_def]
  have d: "detectLogo env s url rc
           = (case detectLogo env s' url (rc + 1) of
                (r, s3, evs') \<Rightarrow> (r, s3, [RemoteCall] @ Delay (1000 * (int rc + 1)) # evs'))"
    unfolding s'_def by (rule detectLogo_retry [OF Suc.prems(3,4,5) e lt re])
  have IH: "snd (snd (detectLogo env s' url (rc + 1)))
           = concat (map (\<lambda>k. [RemoteCall, Delay (1000 * (int k + 1))]) [rc + 1..<maxRetries s'])
               @ [RemoteCall]
       \<and> apiCalls (rstats (fst (snd (detectLogo env s' url (rc + 1)))))
           = apiCalls (rstats s') + (maxRetries s' - (rc + 1)) + 1
       \<and> errors (rstats (fst (snd (detectLogo env s' url (rc + 1)))))
           = errors (rstats s') + (maxRetries s' - (rc + 1)) + 1
       \<and> (\<forall>e. detectCustomLabels env (maxRetries s') bytes (confidenceThreshold s' * 100) = Inl e
              \<longrightarrow> fst (detectLogo env s' url (rc + 1)) = Inl (handleRekognitionError e))"
  proof (rule Suc.IH)
    show "n = maxRetries s' - (rc + 1)" using Suc.prems(1) af(2) by simp
    show "rc + 1 \<le> maxRetries s'" using lt af(2) by simp
    show "isInitialized s'" using Suc.prems(3) af(1) by simp
    show "fst (getFromCache s' (generateCacheKey url) (nowLookup env (rc + 1))) = None"
      by (rule af(6))
    show "dataUrlToBytes env url = Inr bytes" by (rule Suc.prems(5))
    show "\<forall>k. rc + 1 \<le> k \<and> k \<le> maxRetries s' \<longrightarrow>
           (\<exists>e. detectCustomLabels env k bytes (confidenceThreshold s' * 100) = Inl e
                \<and> isRetryableError e)"
      using Suc.prems(6) af(2,3) by simp
  qed
  show ?case
    using IH lt retry_events_unfold [OF lt]
    by (simp add: d case_prod_beta af(2,3,4,5) del: upt_Suc) arith
qed


lemma classify_retryable:
  "code e \<in> {''ThrottlingException'', ''InternalServerError'', ''ServiceUnavailableException'',
              ''RequestTimeout'', ''NetworkingError''} \<Longrightarrow> isRetryableError e"
  "statusCode e = Some n \<Longrightarrow> 500 \<le> n \<Longrightarrow> isRetryableError e"
  by (auto simp: isRetryableError_def retryableCodes_def)

lemma classify_fatal:
  "code e \<in> {''InvalidParameterException'', ''ResourceNotFoundException'',
              ''AccessDeniedException'', ''LimitExceededException''} \<Longrightarrow>
   statusCode e = None \<or> (\<exists>n. statusCode e = Some n \<and> n < 500) \<Longrightarrow> \<not> isRetryableError e"
  by (auto simp: isRetryableError_def retryableCodes_def)

text \<open>
  C6. On an initialised service, with the image not in the cache and decodable: when
  every remote call fails with a retryable error, \<open>detectLogo\<close> makes exactly
  \<open>maxRetries + 1\<close> calls, waits \<open>1000 * k\<close> milliseconds before the retry number
  \<open>k\<close>, and then throws the error made from the last failure; when the first call fails
  with a fatal error it makes exactly one call and throws at once. The codes
  ThrottlingException, InternalServerError, ServiceUnavailableException, RequestTimeout
  and NetworkingError and every status from 500 are retryable; InvalidParameterException,
  ResourceNotFoundException, AccessDeniedException and LimitExceededException with a status
  below 500 are fatal.
\<close>

theorem retry_ceiling:
  assumes "isInitialized s"
    and "fst (getFromCache s (generateCacheKey url) (nowLookup env 0)) = None"
    and "dataUrlToBytes env url = Inr bytes"
  shows "((\<forall>k \<le> maxRetries s.
            \<exists>e. detectCustomLabels env k bytes (confidenceThreshold s * 100) = Inl e
                \<and> isRetryableError e) \<longrightarrow>
          snd (snd (detectLogo env s url 0))
            = concat (map (\<lambda>k. [RemoteCall, Delay (1000 * (int k + 1))]) [0..<maxRetries s])
                @ [RemoteCall]
        \<and> length (filter (\<lambda>ev. ev = RemoteCall) (snd (snd (detectLogo env s url 0))))
            = maxRetries s + 1
        \<and> apiCalls (rstats (fst (snd (detectLogo env s url 0))))
            = apiCalls (rstats s) + maxRetries s + 1
        \<and> (\<forall>e. detectCustomLabels env (maxRetries s) bytes (confidenceThreshold s * 100) = Inl e
              \<longrightarrow> fst (detectLogo env s url 0) = Inl (handleRekognitionError e)))
       \<and> (\<forall>e. detectCustomLabels env 0 bytes (confidenceThreshold s * 100) = Inl e
               \<and> \<not> isRetryableError e \<longrightarrow>
             fst (detectLogo env s url 0) = Inl (handleRekognitionError e)
           \<and> snd (snd (detectLogo env s url 0)) = [RemoteCall]
           \<and> apiCalls (rstats (fst (snd (detectLogo env s url 0)))) = apiCalls (rstats s) + 1)
       \<and> (\<forall>e. code e \<in> {''ThrottlingException'', ''InternalServerError'',
                          ''ServiceUnavailableException'', ''RequestTimeout'', ''NetworkingError''}
               \<or> (\<exists>n. statusCode e = Some n \<and> 500 \<le> n) \<longrightarrow> isRetryableError e)
       \<and> (\<forall>e. code e \<in> {''InvalidParameterException'', ''ResourceNotFoundException'',
                          ''AccessDeniedException'', ''LimitExceededException''}
               \<and> (statusCode e = None \<or> (\<exists>n. statusCode e = Some n \<and> n < 500))
               \<longrightarrow> \<not> isRetryableError e)"
proof (intro conjI impI allI)
  assume all: "\<forall>k \<le> maxRetries s.
            \<exists>e. detectCustomLabels env k bytes (confidenceThreshold s * 100) = Inl e
                \<and> isRetryableError e"
  then have all': "\<forall>k. 0 \<le> k \<and> k \<le> maxRetries s \<longrightarrow>
           (\<exists>e. detectCustomLabels env k bytes (confidenceThreshold s * 100) = Inl e
                \<and> isRetryableError e)" by simp
  note r = detectLogo_all_retryable [OF refl _ assms(1,2,3) all', simplified]
  show ev: "snd (snd (detectLogo env s url 0))
            = concat (map (\<lambda>k. [RemoteCall, Delay (1000 * (int k + 1))]) [0..<maxRetries s])
                @ [RemoteCall]"
    using r by simp
  have cnt: "length (filter (\<lambda>ev. ev = RemoteCall)
               (concat (map (\<lambda>k. [RemoteCall, Delay (1000 * (int k + 1))]) [0..<m]))) = m" for m
    by (induction m) auto
  show "length (filter (\<lambda>ev. ev = RemoteCall) (snd (snd (detectLogo env s url 0))))
            = maxRetries s + 1"
    by (simp only: ev filter_append length_append cnt) simp
  show "apiCalls (rstats (fst (snd (detectLogo env s url 0))))
            = apiCalls (rstats s) + maxRetries s + 1"
    using r by simp
  fix e
  assume "detectCustomLabels env (maxRetries s) bytes (confidenceThreshold s * 100) = Inl e"
  then show "fst (detectLogo env s url 0) = Inl (handleRekognitionError e)"
    using r by simp
next
  fix e
  assume a: "detectCustomLabels env 0 bytes (confidenceThreshold s * 100) = Inl e
               \<and> \<not> isRetryableError e"
  then have n: "\<not> (0 < maxRetries s \<and> isRetryableError e)" by simp
  note d = detectLogo_fatal [OF assms(1,2,3) conjunct1 [OF a] n]
  show "fst (detectLogo env s url 0) = Inl (handleRekognitionError e)" by (simp add: d)
  show "snd (snd (detectLogo env s url 0)) = [RemoteCall]" by (simp add: d)
  show "apiCalls (rstats (fst (snd (detectLogo env s url 0)))) = apiCalls (rstats s) + 1"
    using after_failure(4) [OF assms(2)] by (simp add: d)
next
  fix e :: js_error
  assume "code e \<in> {''ThrottlingException'', ''InternalServerError'',
                          ''ServiceUnavailableException'', ''RequestTimeout'', ''NetworkingError''}
               \<or> (\<exists>n. statusCode e = Some n \<and> 500 \<le> n)"
  then show "isRetryableError e" using classify_retryable by blast
next
  fix e :: js_error
  assume "code e \<in> {''InvalidParameterException'', ''ResourceNotFoundException'',
                          ''AccessDeniedException'', ''LimitExceededException''}
               \<and> (statusCode e = None \<or> (\<exists>n. statusCode e = Some n \<and> n < 500))"
  then show "\<not> isRetryableError e" using classify_fatal by blast
qed


lemma ready_fields:
  "isInitialized readyService" "maxRetries readyService = 3"
  "detectionCache readyService = []" "apiCalls (rstats readyService) = 0"
  by (simp_all add: readyService_def RekognitionService_def)

lemma ready_miss: "fst (getFromCache readyService key now) = None"
  by (simp add: getFromCache_def ready_fields)

lemma failingEnv_fields:
  "dataUrlToBytes (failingEnv e) u = Inr [255, 216, 255]"
  "detectCustomLabels (failingEnv e) k b c = Inl e"
  by (simp_all add: failingEnv_def)

lemma sample_errors:
  "isRetryableError throttlingError" "\<not> isRetryableError accessDeniedError"
  "handleRekognitionError throttlingError = ''Too many requests. Please wait and try again''"
  "handleRekognitionError accessDeniedError
     = ''Access denied. Check AWS credentials and permissions''"
  by (simp_all add: isRetryableError_def retryableCodes_def handleRekognitionError_def
      throttlingError_def accessDeniedError_def)

theorem retry_ceiling_witness:
  "isInitialized readyService
   \<and> fst (getFromCache readyService (generateCacheKey sampleUrl)
            (nowLookup (failingEnv throttlingError) 0)) = None
   \<and> dataUrlToBytes (failingEnv throttlingError) sampleUrl = Inr [255, 216, 255]
   \<and> isRetryableError throttlingError \<and> maxRetries readyService = 3
   \<and> detectLogo (failingEnv throttlingError) readyService sampleUrl 0
       = (Inl ''Too many requests. Please wait and try again'',
          fst (snd (detectLogo (failingEnv throttlingError) readyService sampleUrl 0)),
          [RemoteCall, Delay 1000, RemoteCall, Delay 2000, RemoteCall, Delay 3000, RemoteCall])
   \<and> apiCalls (rstats (fst (snd (detectLogo (failingEnv throttlingError) readyService sampleUrl 0))))
       = 4
   \<and> \<not> isRetryableError accessDeniedError
   \<and> detectLogo (failingEnv accessDeniedError) readyService sampleUrl 0
       = (Inl ''Access denied. Check AWS credentials and permissions'',
          fst (snd (detectLogo (failingEnv accessDeniedError) readyService sampleUrl 0)),
          [RemoteCall])
   \<and> apiCalls (rstats (fst (snd (detectLogo (failingEnv accessDeniedError) readyService sampleUrl 0))))
       = 1"
proof -
  let ?t = "failingEnv throttlingError" and ?a = "failingEnv accessDeniedError"
  have all: "\<forall>k \<le> maxRetries readyService.
      \<exists>e. detectCustomLabels ?t k [255, 216, 255] (confidenceThreshold readyService * 100) = Inl e
          \<and> isRetryableError e"
    by (simp add: failingEnv_fields sample_errors)
  have last: "detectCustomLabels ?t (maxRetries readyService) [255, 216, 255]
                (confidenceThreshold readyService * 100) = Inl throttlingError"
    by (rule failingEnv_fields)
  have first: "detectCustomLabels ?a 0 [255, 216, 255]
                (confidenceThreshold readyService * 100) = Inl accessDeniedError
               \<and> \<not> isRetryableError accessDeniedError"
    by (simp add: failingEnv_fields sample_errors)
  note T = retry_ceiling [OF ready_fields(1)
      ready_miss [of "generateCacheKey sampleUrl" "nowLookup ?t 0"]
      failingEnv_fields(1) [of throttlingError sampleUrl]]
  note A = retry_ceiling [OF ready_fields(1)
      ready_miss [of "generateCacheKey sampleUrl" "nowLookup ?a 0"]
      failingEnv_fields(1) [of accessDeniedError sampleUrl]]
  have t1: "snd (snd (detectLogo ?t readyService sampleUrl 0))
      = [RemoteCall, Delay 1000, RemoteCall, Delay 2000, RemoteCall, Delay 3000, RemoteCall]"
    using T all by (simp add: ready_fields(2) upt_conv_Cons)
  have t2: "fst (detectLogo ?t readyService sampleUrl 0)
      = Inl ''Too many requests. Please wait and try again''"
    using T all last sample_errors(3) by metis
  have t3: "apiCalls (rstats (fst (snd (detectLogo ?t readyService sampleUrl 0)))) = 4"
    using T all by (simp add: ready_fields)
  have a1: "snd (snd (detectLogo ?a readyService sampleUrl 0)) = [RemoteCall]"
    and a2: "fst (detectLogo ?a readyService sampleUrl 0)
      = Inl ''Access denied. Check AWS credentials and permissions''"
    and a3: "apiCalls (rstats (fst (snd (detectLogo ?a readyService sampleUrl 0)))) = 1"
    using A first sample_errors(4) by (simp_all add: ready_fields)
  show ?thesis
    using ready_fields(1,2) ready_miss failingEnv_fields(1) sample_errors(1,2) t1 t2 t3 a1 a2 a3
    by (simp add: prod_eq_iff)
qed

end
